theory Spec2Isabelle
  imports Complex_Main
begin

section \<open>Sparse second order automatic differentiation (Sparse2.py)\<close>

text \<open>
  The class \<open>spAD2\<close> of \<open>agd/AutomaticDifferentiation/Sparse2.py\<close> is an array of
  values that carries, for every element, a list of first order terms
  (coefficient, index) and a list of second order terms (coefficient, row, column).

  Representation. An array of outer shape \<open>S\<close> is kept as its shape and its elements in
  C order. A derivative array of shape \<open>S + (W,)\<close> is kept as the list of its rows
  (one row of length \<open>W\<close> per element, in C order) together with \<open>W\<close>, the trailing
  dimension that the source reads as \<open>coef1.shape[-1]\<close> and \<open>coef2.shape[-1]\<close>.
  Coefficients are floating point numbers in the source and real numbers here;
  indices are integers of unbounded size.
\<close>

datatype error = AssertionError | IndexError | ValueError

record spAD2 =
  shape :: "nat list"
  val :: "real list"
  size_ad1 :: nat
  coef1 :: "real list list"
  index :: "int list list"
  size_ad2 :: nat
  coef2 :: "real list list"
  index_row :: "int list list"
  index_col :: "int list list"

text \<open>The first order class \<open>Sparse.spAD\<close> and the dense class \<open>Dense2.denseAD2\<close>.\<close>

record spAD =
  sp_shape :: "nat list"
  sp_val :: "real list"
  sp_size_ad :: nat
  sp_coef :: "real list list"
  sp_index :: "int list list"

record denseAD =
  dn_shape :: "nat list"
  dn_val :: "real list"
  dn_coef :: "real list list"

record denseAD2 =
  d_shape :: "nat list"
  d_val :: "real list"
  d_coef1 :: "real list list"
  d_coef2 :: "real list list list"

text \<open>
  The class invariant that the constructor \<open>spAD2.__new__\<close> asserts: the coefficient
  and index arrays of one order have the same shape, whose leading part is the shape
  of the value.
\<close>

definition rows_ok :: "nat \<Rightarrow> nat \<Rightarrow> 'a list list \<Rightarrow> bool" where
  "rows_ok n w rs \<longleftrightarrow> length rs = n \<and> list_all (\<lambda>r. length r = w) rs"

definition wf :: "spAD2 \<Rightarrow> bool" where
  "wf x \<longleftrightarrow> length (val x) = prod_list (shape x)
     \<and> rows_ok (length (val x)) (size_ad1 x) (coef1 x)
     \<and> rows_ok (length (val x)) (size_ad1 x) (index x)
     \<and> rows_ok (length (val x)) (size_ad2 x) (coef2 x)
     \<and> rows_ok (length (val x)) (size_ad2 x) (index_row x)
     \<and> rows_ok (length (val x)) (size_ad2 x) (index_col x)"

subsection \<open>The numpy operations that the source calls\<close>

text \<open>\<open>np.repeat(a, n, axis=-1)\<close> and \<open>np.tile(a, n)\<close> on one row.\<close>

definition np_repeat :: "'a list \<Rightarrow> nat \<Rightarrow> 'a list" where
  "np_repeat xs n = concat (map (replicate n) xs)"

definition np_tile :: "'a list \<Rightarrow> nat \<Rightarrow> 'a list" where
  "np_tile xs n = concat (replicate n xs)"

text \<open>
  Broadcasting of shapes, aligned at the last axis: two dimensions are compatible when
  they are equal or one of them is 1.
\<close>

fun broadcast_rev :: "nat list \<Rightarrow> nat list \<Rightarrow> nat list option" where
  "broadcast_rev [] ys = Some ys"
| "broadcast_rev xs [] = Some xs"
| "broadcast_rev (x # xs) (y # ys) =
     (if x = y \<or> y = 1 then map_option (Cons x) (broadcast_rev xs ys)
      else if x = 1 then map_option (Cons y) (broadcast_rev xs ys)
      else None)"

definition broadcast_shapes :: "nat list \<Rightarrow> nat list \<Rightarrow> nat list option" where
  "broadcast_shapes s t = map_option rev (broadcast_rev (rev s) (rev t))"

definition can_broadcast :: "nat list \<Rightarrow> nat list \<Rightarrow> bool" where
  "can_broadcast s t \<longleftrightarrow> length s \<le> length t
     \<and> list_all2 (\<lambda>d e. d = e \<or> d = 1) (replicate (length t - length s) 1 @ s) t"

fun bcast :: "nat list \<Rightarrow> nat list \<Rightarrow> 'a list \<Rightarrow> 'a list" where
  "bcast (d # ds) (e # es) xs =
     (if d = e
      then concat (map (\<lambda>k. bcast ds es (take (prod_list ds) (drop (k * prod_list ds) xs))) [0..<d])
      else concat (replicate e (bcast ds es xs)))"
| "bcast ds es xs = xs"

text \<open>\<open>np.broadcast_to\<close> on the elements (or the rows) of an array of shape \<open>s\<close>.\<close>

definition broadcast_to :: "nat list \<Rightarrow> nat list \<Rightarrow> 'a list \<Rightarrow> 'a list option" where
  "broadcast_to s t xs =
     (if can_broadcast s t then Some (bcast (replicate (length t - length s) 1 @ s) t xs)
      else None)"

text \<open>\<open>np.max(a)\<close> raises ValueError on an array without elements;
  \<open>np.max(a, initial=m)\<close> does not.\<close>

definition np_max :: "int list \<Rightarrow> error + int" where
  "np_max xs = (case xs of [] \<Rightarrow> Inl ValueError | y # ys \<Rightarrow> Inr (fold max ys y))"

definition np_max_initial :: "int \<Rightarrow> int list \<Rightarrow> int" where
  "np_max_initial m xs = fold max xs m"

text \<open>Integer \<open>//\<close> and \<open>%\<close> of numpy round to minus infinity and give 0 for a zero divisor.\<close>

definition np_floordiv :: "int \<Rightarrow> int \<Rightarrow> int" where
  "np_floordiv a b = (if b = 0 then 0 else a div b)"

definition np_mod :: "int \<Rightarrow> int \<Rightarrow> int" where
  "np_mod a b = (if b = 0 then 0 else a mod b)"

subsection \<open>Helpers of the module misc\<close>

text \<open>
  Modelled from the spec: \<open>misc._pad_last\<close> is not among the sources. The narrower array
  is padded to the wider's width with zero-coefficient dummy entries; as the source
  applies it to coefficient and index arrays alike, the index of a dummy entry is 0.
  Every call in \<open>Sparse2.py\<close> passes a total width that is the maximum of the widths
  involved, so the width to add is never negative.
\<close>

definition pad_last :: "nat \<Rightarrow> ('a::zero) list list \<Rightarrow> nat \<Rightarrow> 'a list list" where
  "pad_last w rs pad_total = map (\<lambda>r. r @ replicate (pad_total - w) 0) rs"

subsection \<open>The factory and indexing\<close>

text \<open>
  Modelled from the spec: \<open>Sparse.identity\<close> is not among the sources. Identity(values,
  indices) builds unit first order terms (coefficient 1 at the given index) and empty
  second order terms; the second order arrays have trailing dimension 0, as
  \<open>Sparse2.identity\<close> writes them.
\<close>

definition identity :: "nat list \<Rightarrow> real list \<Rightarrow> int list \<Rightarrow> spAD2" where
  "identity shp vs ixs =
     \<lparr>shape = shp, val = vs, size_ad1 = 1,
      coef1 = map (\<lambda>_. [1]) vs, index = map (\<lambda>i. [i]) ixs,
      size_ad2 = 0,
      coef2 = map (\<lambda>_. []) vs, index_row = map (\<lambda>_. []) vs, index_col = map (\<lambda>_. []) vs\<rparr>"

text \<open>
  Keys. \<open>KInt i\<close> is an integer on the first axis, \<open>KAll\<close> is \<open>...\<close>, and
  \<open>KList is\<close> is a list of integers on the first axis. \<open>key_select\<close> gives the shape of
  the selection and the positions (in C order) of the selected elements, or the
  IndexError of numpy. \<open>misc.key_expand\<close> extends the key by the trailing axis, so that
  the same positions select the rows of the derivative arrays.
\<close>

datatype key = KInt int | KAll | KList "int list"

definition norm_index :: "nat \<Rightarrow> int \<Rightarrow> nat option" where
  "norm_index n i =
     (if 0 \<le> i \<and> i < int n then Some (nat i)
      else if - int n \<le> i \<and> i < 0 then Some (nat (i + int n))
      else None)"

definition block :: "nat \<Rightarrow> nat \<Rightarrow> nat list" where
  "block m j = [j * m ..< (j + 1) * m]"

fun norm_all :: "nat \<Rightarrow> int list \<Rightarrow> nat list option" where
  "norm_all n [] = Some []"
| "norm_all n (i # is) =
     (case norm_index n i of None \<Rightarrow> None
      | Some j \<Rightarrow> (case norm_all n is of None \<Rightarrow> None | Some js \<Rightarrow> Some (j # js)))"

fun key_select :: "nat list \<Rightarrow> key \<Rightarrow> error + (nat list \<times> nat list)" where
  "key_select shp KAll = Inr (shp, [0..<prod_list shp])"
| "key_select [] (KInt i) = Inl IndexError"
| "key_select (d # ds) (KInt i) =
     (case norm_index d i of None \<Rightarrow> Inl IndexError
      | Some j \<Rightarrow> Inr (ds, block (prod_list ds) j))"
| "key_select [] (KList is) = Inl IndexError"
| "key_select (d # ds) (KList is) =
     (case norm_all d is of None \<Rightarrow> Inl IndexError
      | Some js \<Rightarrow> Inr (length is # ds, concat (map (block (prod_list ds)) js)))"

definition getitem :: "spAD2 \<Rightarrow> key \<Rightarrow> error + spAD2" where
  "getitem x k =
     (case key_select (shape x) k of Inl e \<Rightarrow> Inl e
      | Inr (ks, pos) \<Rightarrow>
          Inr \<lparr>shape = ks, val = map (nth (val x)) pos,
               size_ad1 = size_ad1 x,
               coef1 = map (nth (coef1 x)) pos, index = map (nth (index x)) pos,
               size_ad2 = size_ad2 x,
               coef2 = map (nth (coef2 x)) pos, index_row = map (nth (index_row x)) pos,
               index_col = map (nth (index_col x)) pos\<rparr>)"

subsection \<open>Multiplication\<close>

text \<open>
  \<open>spAD2.__mul__\<close> for two \<open>spAD2\<close> operands, on one element: \<open>va\<close>, \<open>vb\<close> are the values,
  \<open>ca\<close>, \<open>ia\<close> the first order row and \<open>c2a\<close>, \<open>ra\<close>, \<open>ka\<close> the second order row of the
  first operand, and likewise for the second.
\<close>

definition mul_coef1 :: "real \<Rightarrow> real list \<Rightarrow> real \<Rightarrow> real list \<Rightarrow> real list" where
  "mul_coef1 va ca vb cb = map ((*) vb) ca @ map ((*) va) cb"

definition mul_coef2 ::
  "nat \<Rightarrow> nat \<Rightarrow> real \<Rightarrow> real list \<Rightarrow> real list \<Rightarrow> real \<Rightarrow> real list \<Rightarrow> real list \<Rightarrow> real list" where
  "mul_coef2 len_a len_b va ca c2a vb cb c2b =
     (let coef2_ab = map2 (*) (np_repeat ca len_b) (np_tile cb len_a)
      in map ((*) vb) c2a @ map ((*) va) c2b @ coef2_ab @ coef2_ab)"

definition mul_index_row ::
  "nat \<Rightarrow> nat \<Rightarrow> int list \<Rightarrow> int list \<Rightarrow> int list \<Rightarrow> int list \<Rightarrow> int list" where
  "mul_index_row len_a len_b ia ra ib rb =
     ra @ rb @ np_repeat ia len_b @ np_tile ib len_a"

definition mul_index_col ::
  "nat \<Rightarrow> nat \<Rightarrow> int list \<Rightarrow> int list \<Rightarrow> int list \<Rightarrow> int list \<Rightarrow> int list" where
  "mul_index_col len_a len_b ia ka ib kb =
     ka @ kb @ np_tile ib len_a @ np_repeat ia len_b"

text \<open>
  The whole arrays: the operands are broadcast to their common shape (ValueError when
  there is none), and the rows are combined element by element.
\<close>

definition map4 :: "('a \<Rightarrow> 'b \<Rightarrow> 'c \<Rightarrow> 'd \<Rightarrow> 'e) \<Rightarrow> 'a list \<Rightarrow> 'b list \<Rightarrow> 'c list \<Rightarrow> 'd list \<Rightarrow> 'e list" where
  "map4 f as bs cs ds = map (\<lambda>(a, b, c, d). f a b c d) (zip as (zip bs (zip cs ds)))"

definition map6 ::
  "('a \<Rightarrow> 'b \<Rightarrow> 'c \<Rightarrow> 'd \<Rightarrow> 'e \<Rightarrow> 'f \<Rightarrow> 'g) \<Rightarrow> 'a list \<Rightarrow> 'b list \<Rightarrow> 'c list \<Rightarrow> 'd list \<Rightarrow> 'e list \<Rightarrow> 'f list \<Rightarrow> 'g list" where
  "map6 f as bs cs ds es fs =
     map (\<lambda>(a, b, c, d, e, g). f a b c d e g) (zip as (zip bs (zip cs (zip ds (zip es fs)))))"

definition bc :: "nat list \<Rightarrow> nat list \<Rightarrow> 'a list \<Rightarrow> 'a list" where
  "bc s t xs = bcast (replicate (length t - length s) 1 @ s) t xs"

definition mul :: "spAD2 \<Rightarrow> spAD2 \<Rightarrow> error + spAD2" where
  "mul a b =
     (case broadcast_shapes (shape a) (shape b) of None \<Rightarrow> Inl ValueError
      | Some s \<Rightarrow>
          (let va = bc (shape a) s (val a); vb = bc (shape b) s (val b);
               ca = bc (shape a) s (coef1 a); cb = bc (shape b) s (coef1 b);
               ia = bc (shape a) s (index a); ib = bc (shape b) s (index b);
               c2a = bc (shape a) s (coef2 a); c2b = bc (shape b) s (coef2 b);
               ra = bc (shape a) s (index_row a); rb = bc (shape b) s (index_row b);
               ka = bc (shape a) s (index_col a); kb = bc (shape b) s (index_col b);
               len_a = size_ad1 a; len_b = size_ad1 b
           in Inr \<lparr>shape = s, val = map2 (*) va vb,
                   size_ad1 = size_ad1 a + size_ad1 b,
                   coef1 = map4 mul_coef1 va ca vb cb,
                   index = map2 (@) ia ib,
                   size_ad2 = size_ad2 a + size_ad2 b + 2 * (len_a * len_b),
                   coef2 = map6 (mul_coef2 len_a len_b) va ca c2a vb cb c2b,
                   index_row = map4 (mul_index_row len_a len_b) ia ra ib rb,
                   index_col = map4 (mul_index_col len_a len_b) ia ka ib kb\<rparr>))"

subsection \<open>Simplification\<close>

text \<open>
  Modelled from the spec: \<open>Sparse.spAD.simplify_ad\<close>, the routine that removes the
  duplicates of first order terms, is not among the sources. It merges the entries of
  one element that share an index into one entry with summed coefficient and drops the
  zero-coefficient entries; the elements are padded to a uniform width with
  zero-coefficient dummy entries. The entries are listed by increasing index, so that
  equal sums have identical compacted term lists.
\<close>

definition merge_terms :: "(real \<times> int) list \<Rightarrow> (real \<times> int) list" where
  "merge_terms ts =
     filter (\<lambda>t. fst t \<noteq> 0)
       (map (\<lambda>k. (sum_list (map fst (filter (\<lambda>t. snd t = k) ts)), k))
            (sort (remdups (map snd ts))))"

definition pad_terms :: "nat \<Rightarrow> (real \<times> int) list \<Rightarrow> (real \<times> int) list" where
  "pad_terms w ts = ts @ replicate (w - length ts) (0, 0)"

definition spAD_simplify :: "spAD \<Rightarrow> spAD" where
  "spAD_simplify h =
     (let ms = map2 (\<lambda>cs ks. merge_terms (zip cs ks)) (sp_coef h) (sp_index h);
          w = fold max (map length ms) 0
      in h\<lparr>sp_size_ad := w,
            sp_coef := map (\<lambda>m. map fst (pad_terms w m)) ms,
            sp_index := map (\<lambda>m. map snd (pad_terms w m)) ms\<rparr>)"

text \<open>
  \<open>spAD2.simplify_ad\<close> changes the array in place. The result is the array after the
  call, with the exception that ended the call, if any: the first order arrays are
  replaced before \<open>np.max\<close> is taken of the column indices.
\<close>

definition simplify_ad :: "spAD2 \<Rightarrow> error option \<times> spAD2" where
  "simplify_ad x =
     (let spHelper1 = spAD_simplify
            \<lparr>sp_shape = shape x, sp_val = val x, sp_size_ad = size_ad1 x,
             sp_coef = coef1 x, sp_index = index x\<rparr>;
          x1 = x\<lparr>size_ad1 := sp_size_ad spHelper1, coef1 := sp_coef spHelper1,
                 index := sp_index spHelper1\<rparr>
      in case np_max (concat (index_col x1)) of
           Inl e \<Rightarrow> (Some e, x1)
         | Inr m \<Rightarrow>
             (let n_col = 1 + m;
                  spHelper2 = spAD_simplify
                    \<lparr>sp_shape = shape x1, sp_val = val x1, sp_size_ad = size_ad2 x1,
                     sp_coef = coef2 x1,
                     sp_index = map2 (map2 (\<lambda>r c. r * n_col + c)) (index_row x1) (index_col x1)\<rparr>
              in (None,
                  x1\<lparr>size_ad2 := sp_size_ad spHelper2, coef2 := sp_coef spHelper2,
                     index_row := map (map (\<lambda>k. np_floordiv k n_col)) (sp_index spHelper2),
                     index_col := map (map (\<lambda>k. np_mod k n_col)) (sp_index spHelper2)\<rparr>)))"

subsection \<open>Math functions\<close>

text \<open>
  \<open>spAD2._math_helper\<close>: \<open>deriv\<close> holds \<open>a = f(x)\<close>, \<open>b = f'(x)\<close>, \<open>c = f''(x)\<close> at
  \<open>x = self.value\<close>, three arrays of the shape of the value. First on one element.
\<close>

definition helper_coef2 :: "nat \<Rightarrow> real \<Rightarrow> real \<Rightarrow> real list \<Rightarrow> real list \<Rightarrow> real list" where
  "helper_coef2 len_1 b c cs c2 =
     (let coef1_r = np_repeat cs len_1; coef1_t = np_tile cs len_1
      in map ((*) b) c2 @ map ((*) c) (map2 (*) coef1_r coef1_t))"

definition math_helper :: "spAD2 \<Rightarrow> real list \<times> real list \<times> real list \<Rightarrow> spAD2" where
  "math_helper x deriv =
     (case deriv of (a, b, c) \<Rightarrow>
        (let len_1 = size_ad1 x
         in \<lparr>shape = shape x, val = a,
             size_ad1 = size_ad1 x,
             coef1 = map2 (\<lambda>b1 cs. map ((*) b1) cs) b (coef1 x),
             index = index x,
             size_ad2 = size_ad2 x + len_1 * len_1,
             coef2 = map4 (helper_coef2 len_1) b c (coef1 x) (coef2 x),
             index_row = map2 (\<lambda>rs ks. rs @ np_repeat ks len_1) (index_row x) (index x),
             index_col = map2 (\<lambda>rs ks. rs @ np_tile ks len_1) (index_col x) (index x)\<rparr>))"

text \<open>
  Modelled from the spec: \<open>misc.pow2\<close> is not among the sources. A unary function
  supplies the analytic triple (value, first derivative, second derivative) at the
  current value; for the power \<open>x ** n\<close> of a positive \<open>x\<close> that is
  \<open>(x ** n, n * x ** (n - 1), n * (n - 1) * x ** (n - 2))\<close>.
\<close>

definition pow2 :: "real list \<Rightarrow> real \<Rightarrow> real list \<times> real list \<times> real list" where
  "pow2 xs n =
     (map (\<lambda>x. x powr n) xs,
      map (\<lambda>x. n * x powr (n - 1)) xs,
      map (\<lambda>x. (n * (n - 1)) * x powr (n - 2)) xs)"

definition pow_ad :: "spAD2 \<Rightarrow> real \<Rightarrow> spAD2" where
  "pow_ad x n = math_helper x (pow2 (val x) n)"

definition sqrt_ad :: "spAD2 \<Rightarrow> spAD2" where
  "sqrt_ad x = pow_ad x (1 / 2)"

subsection \<open>Conversion to dense arrays\<close>

definition bound_ad :: "spAD2 \<Rightarrow> int" where
  "bound_ad x =
     1 + max (np_max_initial (- 1) (concat (index x)))
             (max (np_max_initial (- 1) (concat (index_row x)))
                  (np_max_initial (- 1) (concat (index_col x))))"

text \<open>
  The loops of \<open>to_dense\<close> add the coefficient \<open>c\<close> to the cell \<open>i\<close> of the dense row,
  one column of terms after the other, for all elements at once. An element only
  touches its own dense row, so the loop is written here for one element:
  \<open>scatter\<close> runs over the terms of the element. \<open>np.take_along_axis\<close> and
  \<open>np.put_along_axis\<close> count a negative index from the end and raise IndexError
  for an index out of range.
\<close>

fun scatter :: "real list \<Rightarrow> (real \<times> int) list \<Rightarrow> error + real list" where
  "scatter acc [] = Inr acc"
| "scatter acc ((c, i) # ts) =
     (case norm_index (length acc) i of
        None \<Rightarrow> Inl IndexError
      | Some j \<Rightarrow> scatter (acc[j := acc ! j + c]) ts)"

fun collect :: "(error + 'a) list \<Rightarrow> error + 'a list" where
  "collect [] = Inr []"
| "collect (Inl e # rs) = Inl e"
| "collect (Inr v # rs) = (case collect rs of Inl e \<Rightarrow> Inl e | Inr vs \<Rightarrow> Inr (v # vs))"

definition reshape2 :: "nat \<Rightarrow> 'a list \<Rightarrow> 'a list list" where
  "reshape2 n xs = map (\<lambda>r. map (\<lambda>c. xs ! (r * n + c)) [0..<n]) [0..<n]"

definition to_dense :: "spAD2 \<Rightarrow> int option \<Rightarrow> error + denseAD2" where
  "to_dense x dense_size_ad =
     (let dsad = (case dense_size_ad of None \<Rightarrow> bound_ad x | Some b \<Rightarrow> b)
      in if dsad < 0 then Inl ValueError
         else
           (case collect (map2 (\<lambda>cs ks. scatter (replicate (nat dsad) 0) (zip cs ks))
                            (coef1 x) (index x)) of
              Inl e \<Rightarrow> Inl e
            | Inr coef1' \<Rightarrow>
                (case collect (map2 (\<lambda>cs ks. scatter (replicate (nat dsad * nat dsad) 0) (zip cs ks))
                                 (coef2 x)
                                 (map2 (map2 (\<lambda>r c. r * dsad + c)) (index_row x) (index_col x))) of
                   Inl e \<Rightarrow> Inl e
                 | Inr coef2' \<Rightarrow>
                     Inr \<lparr>d_shape = shape x, d_val = val x, d_coef1 = coef1',
                          d_coef2 = map (reshape2 (nat dsad)) coef2'\<rparr>)))"

definition to_first :: "spAD2 \<Rightarrow> spAD" where
  "to_first x =
     \<lparr>sp_shape = shape x, sp_val = val x, sp_size_ad = size_ad1 x,
      sp_coef = coef1 x, sp_index = index x\<rparr>"

text \<open>
  Modelled from the spec: \<open>Sparse.spAD.to_dense\<close> is not among the sources. ToDense(bound)
  scatter-accumulates the first order (coefficient, index) pairs into a dense vector of
  length \<open>bound\<close>, as the first loop of \<open>spAD2.to_dense\<close> does.
\<close>

definition spAD_to_dense :: "spAD \<Rightarrow> int \<Rightarrow> error + denseAD" where
  "spAD_to_dense h dsad =
     (if dsad < 0 then Inl ValueError
      else
        (case collect (map2 (\<lambda>cs ks. scatter (replicate (nat dsad) 0) (zip cs ks))
                         (sp_coef h) (sp_index h)) of
           Inl e \<Rightarrow> Inl e
         | Inr coef' \<Rightarrow> Inr \<lparr>dn_shape = sp_shape h, dn_val = sp_val h, dn_coef = coef'\<rparr>))"

subsection \<open>Linear algebra\<close>

type_synonym triplets = "real list list \<times> int list list \<times> int list list"

definition triplets :: "spAD2 \<Rightarrow> triplets" where
  "triplets x = (coef2 x, (index_row x, index_col x))"

text \<open>
  \<open>solve_stationnary\<close>. The solver \<open>misc.spsolve\<close> is outside the sources and is a
  parameter; \<open>raw = True\<close> gives the linear system itself.
\<close>

definition solve_stationnary_raw :: "spAD2 \<Rightarrow> error + triplets \<times> real list list" where
  "solve_stationnary_raw x =
     (let mat = triplets x
      in case spAD_to_dense (to_first x) (bound_ad x) of
           Inl e \<Rightarrow> Inl e
         | Inr d \<Rightarrow> Inr (mat, map (map uminus) (dn_coef d)))"


text \<open>
  \<open>solve_weakform\<close>. \<open>rhs.size\<close> counts all cells of the right hand side; \<open>rhs[n:]\<close>
  cuts the first axis (the only axis for an array scalar); the mask \<open>pos\<close> selects
  from the flattened triplets.
\<close>

type_synonym system = "(real list \<times> int list \<times> int list) \<times> real list list"

definition solve_weakform_raw :: "spAD2 \<Rightarrow> error + system" where
  "solve_weakform_raw x =
     (case solve_stationnary_raw x of
        Inl e \<Rightarrow> Inl e
      | Inr ((coef, (row, col)), rhs) \<Rightarrow>
          (let n = length (concat rhs) div 2;
               rhs' = (case shape x of [] \<Rightarrow> map (drop n) rhs
                       | d # ds \<Rightarrow> drop (n * prod_list ds) rhs);
               pos = filter (\<lambda>(c, r, k). r \<ge> int n \<and> k < int n)
                       (zip (concat coef) (zip (concat row) (concat col)))
           in Inr ((map fst pos, (map (\<lambda>(c, r, k). r - int n) pos, map (\<lambda>(c, r, k). k) pos)),
                   rhs')))"

definition solve_weakform ::
  "((real list \<times> int list \<times> int list) \<Rightarrow> real list list \<Rightarrow> error + 'r) \<Rightarrow> spAD2 \<Rightarrow> bool
     \<Rightarrow> error + system + 'r" where
  "solve_weakform spsolve x raw =
     (case solve_weakform_raw x of
        Inl e \<Rightarrow> Inl e
      | Inr (mat, rhs) \<Rightarrow>
          (if raw then Inr (Inl (mat, rhs))
           else (case spsolve mat rhs of Inl e \<Rightarrow> Inl e | Inr u \<Rightarrow> Inr (Inr u))))"

text \<open>
  The reduced system as the specification words it, for comparison: indices below the
  split point \<open>n\<close> are the block v, the rest the block u; the system keeps the
  sub-block that couples the v-rows to the u-columns and the sub-vector of the right
  hand side that belongs to those rows. It is written for an array scalar.
\<close>

definition weakform_spec :: "spAD2 \<Rightarrow> error + system" where
  "weakform_spec x =
     (case solve_stationnary_raw x of
        Inl e \<Rightarrow> Inl e
      | Inr ((coef, (row, col)), rhs) \<Rightarrow>
          (let n = length (concat rhs) div 2;
               pos = filter (\<lambda>(c, r, k). r < int n \<and> k \<ge> int n)
                       (zip (concat coef) (zip (concat row) (concat col)))
           in Inr ((map fst pos, (map (\<lambda>(c, r, k). r) pos, map (\<lambda>(c, r, k). k - int n) pos)),
                   map (take n) rhs)))"

subsection \<open>Indexed assignment\<close>

text \<open>
  \<open>a[key] = v\<close> of numpy: \<open>v\<close> is broadcast to the shape of the selection (leading
  axes of length 1 that the selection does not have are dropped), or ValueError is
  raised and \<open>a\<close> is left as it was; the values are then written one position after
  the other.
\<close>

definition strip_ones :: "nat list \<Rightarrow> nat list \<Rightarrow> nat list" where
  "strip_ones s t =
     (if length t < length s \<and> list_all (\<lambda>d. d = 1) (take (length s - length t) s)
      then drop (length s - length t) s else s)"

definition assign_broadcast :: "nat list \<Rightarrow> nat list \<Rightarrow> 'a list \<Rightarrow> 'a list option" where
  "assign_broadcast s t xs = broadcast_to (strip_ones s t) t xs"

definition assign :: "'a list \<Rightarrow> nat list \<Rightarrow> 'a list \<Rightarrow> 'a list" where
  "assign xs pos vs = fold (\<lambda>(p, v) ys. ys[p := v]) (zip pos vs) xs"

text \<open>
  \<open>spAD2.__setitem__\<close> changes the array in place, one field after the other. The
  result is the array after the call, with the exception that ended the call, if any.
  The right hand side is an \<open>spAD2\<close> or a plain array (a number is a plain array of
  shape \<open>()\<close>).
\<close>

datatype rhs = AD spAD2 | Plain "nat list" "real list"

definition setitem_ad2 :: "spAD2 \<Rightarrow> nat list \<Rightarrow> nat list \<Rightarrow> spAD2 \<Rightarrow> error option \<times> spAD2" where
  "setitem_ad2 self ks pos other =
     (let pad_size = max (size_ad2 self) (size_ad2 other);
          self1 = (if pad_size > size_ad2 self
                   then self\<lparr>size_ad2 := pad_size,
                             coef2 := pad_last (size_ad2 self) (coef2 self) pad_size,
                             index_row := pad_last (size_ad2 self) (index_row self) pad_size,
                             index_col := pad_last (size_ad2 self) (index_col self) pad_size\<rparr>
                   else self)
      in case assign_broadcast (shape other) ks (pad_last (size_ad2 other) (coef2 other) pad_size) of
           None \<Rightarrow> (Some ValueError, self1)
         | Some cs \<Rightarrow>
             (let self2 = self1\<lparr>coef2 := assign (coef2 self1) pos cs\<rparr>
              in case assign_broadcast (shape other) ks
                        (pad_last (size_ad2 other) (index_row other) pad_size) of
                   None \<Rightarrow> (Some ValueError, self2)
                 | Some rs \<Rightarrow>
                     (let self3 = self2\<lparr>index_row := assign (index_row self2) pos rs\<rparr>
                      in case assign_broadcast (shape other) ks
                                (pad_last (size_ad2 other) (index_col other) pad_size) of
                           None \<Rightarrow> (Some ValueError, self3)
                         | Some ks' \<Rightarrow>
                             (None, self3\<lparr>index_col := assign (index_col self3) pos ks'\<rparr>))))"

definition setitem_ad1 :: "spAD2 \<Rightarrow> nat list \<Rightarrow> nat list \<Rightarrow> spAD2 \<Rightarrow> error option \<times> spAD2" where
  "setitem_ad1 self ks pos other =
     (let pad_size = max (size_ad1 self) (size_ad1 other);
          self1 = (if pad_size > size_ad1 self
                   then self\<lparr>size_ad1 := pad_size,
                             coef1 := pad_last (size_ad1 self) (coef1 self) pad_size,
                             index := pad_last (size_ad1 self) (index self) pad_size\<rparr>
                   else self)
      in case assign_broadcast (shape other) ks (pad_last (size_ad1 other) (coef1 other) pad_size) of
           None \<Rightarrow> (Some ValueError, self1)
         | Some cs \<Rightarrow>
             (let self2 = self1\<lparr>coef1 := assign (coef1 self1) pos cs\<rparr>
              in case assign_broadcast (shape other) ks
                        (pad_last (size_ad1 other) (index other) pad_size) of
                   None \<Rightarrow> (Some ValueError, self2)
                 | Some js \<Rightarrow>
                     setitem_ad2 (self2\<lparr>index := assign (index self2) pos js\<rparr>) ks pos other))"

definition setitem :: "spAD2 \<Rightarrow> key \<Rightarrow> rhs \<Rightarrow> error option \<times> spAD2" where
  "setitem self k other =
     (case key_select (shape self) k of
        Inl e \<Rightarrow> (Some e, self)
      | Inr (ks, pos) \<Rightarrow>
          (case other of
             AD o2 \<Rightarrow>
               (case assign_broadcast (shape o2) ks (val o2) of
                  None \<Rightarrow> (Some ValueError, self)
                | Some vs \<Rightarrow> setitem_ad1 (self\<lparr>val := assign (val self) pos vs\<rparr>) ks pos o2)
           | Plain s ws \<Rightarrow>
               (case assign_broadcast s ks ws of
                  None \<Rightarrow> (Some ValueError, self)
                | Some vs \<Rightarrow>
                    (None,
                     self\<lparr>val := assign (val self) pos vs,
                          coef1 := assign (coef1 self) pos
                                     (map (\<lambda>_. replicate (size_ad1 self) 0) pos),
                          coef2 := assign (coef2 self) pos
                                     (map (\<lambda>_. replicate (size_ad2 self) 0) pos)\<rparr>))))"

text \<open>
  The sum of the coefficients of the terms that \<open>scatter\<close> adds to the cell \<open>j\<close> of a
  dense row of length \<open>n\<close>.
\<close>

definition cell_sum :: "nat \<Rightarrow> (real \<times> int) list \<Rightarrow> nat \<Rightarrow> real" where
  "cell_sum n ts j = sum_list (map fst (filter (\<lambda>t. norm_index n (snd t) = Some j) ts))"

text \<open>All the indices of an array lie between 0 and the bound \<open>b\<close>.\<close>

definition indices_below :: "spAD2 \<Rightarrow> int \<Rightarrow> bool" where
  "indices_below x b \<longleftrightarrow>
     (\<forall>i\<in>set (concat (index x) @ concat (index_row x) @ concat (index_col x)). 0 \<le> i \<and> i < b)"



text \<open>
  The sum of the coefficients of the terms of one element that carry the index (or
  the pair of row and column) \<open>k\<close>, and the lists of terms that the simplification
  produces before padding: increasing indices, none twice, no zero coefficient.
\<close>

definition term_sum :: "(real \<times> 'k) list \<Rightarrow> 'k \<Rightarrow> real" where
  "term_sum ts k = sum_list (map fst (filter (\<lambda>t. snd t = k) ts))"

definition canonical :: "(real \<times> int) list \<Rightarrow> bool" where
  "canonical ts \<longleftrightarrow> sorted (map snd ts) \<and> distinct (map snd ts) \<and> (\<forall>t\<in>set ts. fst t \<noteq> 0)"


section \<open>Properties\<close>

subsection \<open>Scenario 1: the product of two identity variables\<close>

text \<open>
  Claim C1. The identity array on the values 2.0 and 3.0 at the indices 0 and 1 has the
  two scalars \<open>x[0]\<close> and \<open>x[1]\<close>. Their product has value 6.0 and the first order terms
  (3.0, 0) and (2.0, 1); \<open>__mul__\<close> writes the outer product of the first order terms
  twice, as the entry (0, 1) and as the entry (1, 0), and after \<open>simplify_ad\<close> the second
  order terms are exactly those two entries, each with coefficient 1.0.
\<close>

theorem C1_mul_identity_scalars:
  "getitem (identity [2] [2, 3] [0, 1]) (KInt 0) =
     Inr \<lparr>shape = [], val = [2], size_ad1 = 1, coef1 = [[1]], index = [[0]],
          size_ad2 = 0, coef2 = [[]], index_row = [[]], index_col = [[]]\<rparr>
   \<and> getitem (identity [2] [2, 3] [0, 1]) (KInt 1) =
     Inr \<lparr>shape = [], val = [3], size_ad1 = 1, coef1 = [[1]], index = [[1]],
          size_ad2 = 0, coef2 = [[]], index_row = [[]], index_col = [[]]\<rparr>
   \<and> mul \<lparr>shape = [], val = [2], size_ad1 = 1, coef1 = [[1]], index = [[0]],
           size_ad2 = 0, coef2 = [[]], index_row = [[]], index_col = [[]]\<rparr>
          \<lparr>shape = [], val = [3], size_ad1 = 1, coef1 = [[1]], index = [[1]],
           size_ad2 = 0, coef2 = [[]], index_row = [[]], index_col = [[]]\<rparr> =
     Inr \<lparr>shape = [], val = [6], size_ad1 = 2, coef1 = [[3, 2]], index = [[0, 1]],
          size_ad2 = 2, coef2 = [[1, 1]], index_row = [[0, 1]], index_col = [[1, 0]]\<rparr>
   \<and> simplify_ad \<lparr>shape = [], val = [6], size_ad1 = 2, coef1 = [[3, 2]], index = [[0, 1]],
          size_ad2 = 2, coef2 = [[1, 1]], index_row = [[0, 1]], index_col = [[1, 0]]\<rparr> =
     (None, \<lparr>shape = [], val = [6], size_ad1 = 2, coef1 = [[3, 2]], index = [[0, 1]],
          size_ad2 = 2, coef2 = [[1, 1]], index_row = [[0, 1]], index_col = [[1, 0]]\<rparr>)"
  by code_simp

subsection \<open>The chain rule of the math functions\<close>


lemma length_np_repeat: "length (np_repeat xs n) = length xs * n"
  by (induction xs) (simp_all add: np_repeat_def)

lemma length_np_tile: "length (np_tile xs k) = k * length xs"
  by (induction k) (simp_all add: np_tile_def)

lemma nth_np_repeat: "p < length xs * n \<Longrightarrow> np_repeat xs n ! p = xs ! (p div n)"
proof (induction xs arbitrary: p)
  case Nil
  then show ?case by simp
next
  case (Cons x xs)
  have n0: "0 < n" using Cons.prems by (cases n) auto
  show ?case
  proof (cases "p < n")
    case True
    then show ?thesis by (simp add: np_repeat_def nth_append)
  next
    case False
    then have pn: "n \<le> p" by simp
    have lt: "p - n < length xs * n" using Cons.prems pn by simp
    have "np_repeat (x # xs) n ! p = np_repeat xs n ! (p - n)"
      using False by (simp add: np_repeat_def nth_append)
    also have "\<dots> = xs ! ((p - n) div n)" using Cons.IH [OF lt] .
    also have "(p - n) div n = p div n - 1" using pn n0 by (simp add: le_div_geq)
    also have "xs ! (p div n - 1) = (x # xs) ! (p div n)"
      using pn n0 by (cases "p div n") (auto simp: div_eq_0_iff)
    finally show ?thesis .
  qed
qed

lemma nth_np_tile: "p < k * length xs \<Longrightarrow> np_tile xs k ! p = xs ! (p mod length xs)"
proof (induction k arbitrary: p)
  case 0
  then show ?case by simp
next
  case (Suc k)
  show ?case
  proof (cases "p < length xs")
    case True
    then show ?thesis by (simp add: np_tile_def nth_append)
  next
    case False
    then have pn: "length xs \<le> p" by simp
    have lt: "p - length xs < k * length xs" using Suc.prems pn by simp
    have "np_tile xs (Suc k) ! p = np_tile xs k ! (p - length xs)"
      using False by (simp add: np_tile_def nth_append)
    also have "\<dots> = xs ! ((p - length xs) mod length xs)" using Suc.IH [OF lt] .
    also have "(p - length xs) mod length xs = p mod length xs"
      using pn by (simp add: le_mod_geq)
    finally show ?thesis .
  qed
qed

lemma outer_pairs:
  assumes "length cs = n" "length ks = n"
  shows "zip (map2 (*) (np_repeat cs n) (np_tile cs n)) (zip (np_repeat ks n) (np_tile ks n)) =
         map (\<lambda>((ci, ki), (cj, kj)). (ci * cj, ki, kj)) (List.product (zip cs ks) (zip cs ks))"
proof (rule nth_equalityI)
  show "length (zip (map2 (*) (np_repeat cs n) (np_tile cs n)) (zip (np_repeat ks n) (np_tile ks n))) =
        length (map (\<lambda>((ci, ki), (cj, kj)). (ci * cj, ki, kj)) (List.product (zip cs ks) (zip cs ks)))"
    using assms by (simp add: length_np_repeat length_np_tile)
next
  fix p
  assume "p < length (zip (map2 (*) (np_repeat cs n) (np_tile cs n)) (zip (np_repeat ks n) (np_tile ks n)))"
  then have p: "p < n * n" using assms by (simp add: length_np_repeat length_np_tile)
  then have n0: "0 < n" by (cases n) auto
  have d: "p div n < n" using p n0 by (simp add: less_mult_imp_div_less)
  have m: "p mod n < n" using n0 by simp
  show "zip (map2 (*) (np_repeat cs n) (np_tile cs n)) (zip (np_repeat ks n) (np_tile ks n)) ! p =
        map (\<lambda>((ci, ki), (cj, kj)). (ci * cj, ki, kj)) (List.product (zip cs ks) (zip cs ks)) ! p"
    using p d m assms
    by (simp add: length_np_repeat length_np_tile nth_np_repeat nth_np_tile product_nth)
qed

lemma nth_map4:
  assumes "e < length as" "e < length bs" "e < length cs" "e < length ds"
  shows "map4 f as bs cs ds ! e = f (as ! e) (bs ! e) (cs ! e) (ds ! e)"
  using assms by (simp add: map4_def)

lemma rows_okD: "rows_ok n w rs \<Longrightarrow> e < n \<Longrightarrow> length rs = n \<and> length (rs ! e) = w"
  by (simp add: rows_ok_def list_all_length)

text \<open>
  Claim C2. A unary function goes through \<open>_math_helper\<close> with its analytic triple
  \<open>a = f(x)\<close>, \<open>b = f'(x)\<close>, \<open>c = f''(x)\<close>. For every element, the result has the value
  \<open>a\<close>, the first order terms of the argument scaled by \<open>b\<close> at unchanged indices, and
  as second order terms those of the argument scaled by \<open>b\<close>, followed by \<open>c\<close> times
  the product of the coefficients of every ordered pair of first order terms (a term
  paired with itself included), at the row of the first and the column of the second.
  The square root of the identity variable 4.0 at index 0 has value 2.0, first order
  coefficient 0.25 at index 0 and second order coefficient -1/32 at (0, 0).
\<close>

theorem C2_math_helper_chain_rule:
  assumes "wf x"
    and "length a = length (val x)" and "length b = length (val x)"
    and "length c = length (val x)" and "e < length (val x)"
  shows "val (math_helper x (a, b, c)) = a
    \<and> index (math_helper x (a, b, c)) = index x
    \<and> coef1 (math_helper x (a, b, c)) ! e = map ((*) (b ! e)) (coef1 x ! e)
    \<and> zip (coef2 (math_helper x (a, b, c)) ! e)
          (zip (index_row (math_helper x (a, b, c)) ! e) (index_col (math_helper x (a, b, c)) ! e)) =
        map (\<lambda>(c2, rk). (b ! e * c2, rk))
            (zip (coef2 x ! e) (zip (index_row x ! e) (index_col x ! e)))
        @ map (\<lambda>((ci, ki), (cj, kj)). (c ! e * (ci * cj), ki, kj))
            (List.product (zip (coef1 x ! e) (index x ! e)) (zip (coef1 x ! e) (index x ! e)))
    \<and> sqrt_ad (identity [] [4] [0]) =
        \<lparr>shape = [], val = [2], size_ad1 = 1, coef1 = [[1 / 4]], index = [[0]],
         size_ad2 = 1, coef2 = [[- 1 / 32]], index_row = [[0]], index_col = [[0]]\<rparr>"
proof -
  let ?n = "size_ad1 x"
  let ?r = "math_helper x (a, b, c)"
  have c1: "length (coef1 x) = length (val x)" "length (coef1 x ! e) = ?n"
    and i1: "length (index x) = length (val x)" "length (index x ! e) = ?n"
    and c2: "length (coef2 x) = length (val x)" "length (coef2 x ! e) = size_ad2 x"
    and r2: "length (index_row x) = length (val x)" "length (index_row x ! e) = size_ad2 x"
    and k2: "length (index_col x) = length (val x)" "length (index_col x ! e) = size_ad2 x"
    using assms(1,5) by (auto simp: wf_def dest: rows_okD)
  have v: "val ?r = a" and ix: "index ?r = index x"
    by (simp_all add: math_helper_def Let_def)
  have co1: "coef1 ?r ! e = map ((*) (b ! e)) (coef1 x ! e)"
    using assms c1 by (simp add: math_helper_def Let_def)
  have co2: "coef2 ?r ! e = map ((*) (b ! e)) (coef2 x ! e)
       @ map ((*) (c ! e)) (map2 (*) (np_repeat (coef1 x ! e) ?n) (np_tile (coef1 x ! e) ?n))"
    using assms c1 c2 by (simp add: math_helper_def Let_def nth_map4 helper_coef2_def)
  have ro: "index_row ?r ! e = index_row x ! e @ np_repeat (index x ! e) ?n"
    using assms r2 i1 by (simp add: math_helper_def Let_def)
  have cl: "index_col ?r ! e = index_col x ! e @ np_tile (index x ! e) ?n"
    using assms k2 i1 by (simp add: math_helper_def Let_def)
  have pairs: "zip (map ((*) (c ! e)) (map2 (*) (np_repeat (coef1 x ! e) ?n) (np_tile (coef1 x ! e) ?n)))
                   (zip (np_repeat (index x ! e) ?n) (np_tile (index x ! e) ?n)) =
               map (\<lambda>((ci, ki), (cj, kj)). (c ! e * (ci * cj), ki, kj))
                 (List.product (zip (coef1 x ! e) (index x ! e)) (zip (coef1 x ! e) (index x ! e)))"
  proof -
    have "zip (map ((*) (c ! e)) (map2 (*) (np_repeat (coef1 x ! e) ?n) (np_tile (coef1 x ! e) ?n)))
              (zip (np_repeat (index x ! e) ?n) (np_tile (index x ! e) ?n)) =
          map (\<lambda>(u, rk). (c ! e * u, rk))
            (zip (map2 (*) (np_repeat (coef1 x ! e) ?n) (np_tile (coef1 x ! e) ?n))
                 (zip (np_repeat (index x ! e) ?n) (np_tile (index x ! e) ?n)))"
      by (simp add: zip_map1 case_prod_unfold)
    also have "\<dots> = map (\<lambda>(u, rk). (c ! e * u, rk))
            (map (\<lambda>((ci, ki), (cj, kj)). (ci * cj, ki, kj))
               (List.product (zip (coef1 x ! e) (index x ! e)) (zip (coef1 x ! e) (index x ! e))))"
      using outer_pairs [OF c1(2) i1(2)] by simp
    also have "\<dots> = map (\<lambda>((ci, ki), (cj, kj)). (c ! e * (ci * cj), ki, kj))
               (List.product (zip (coef1 x ! e) (index x ! e)) (zip (coef1 x ! e) (index x ! e)))"
      by (simp add: case_prod_unfold)
    finally show ?thesis .
  qed
  have old: "zip (map ((*) (b ! e)) (coef2 x ! e)) (zip (index_row x ! e) (index_col x ! e)) =
             map (\<lambda>(c2, rk). (b ! e * c2, rk))
               (zip (coef2 x ! e) (zip (index_row x ! e) (index_col x ! e)))"
    by (simp add: zip_map1)
  have z: "zip (coef2 ?r ! e) (zip (index_row ?r ! e) (index_col ?r ! e)) =
        map (\<lambda>(c2, rk). (b ! e * c2, rk))
            (zip (coef2 x ! e) (zip (index_row x ! e) (index_col x ! e)))
        @ map (\<lambda>((ci, ki), (cj, kj)). (c ! e * (ci * cj), ki, kj))
            (List.product (zip (coef1 x ! e) (index x ! e)) (zip (coef1 x ! e) (index x ! e)))"
    unfolding co2 ro cl using c2 r2 k2 pairs old by (simp add: zip_append)
  have p1: "(4::real) powr (1 / 2) = 2" by (simp add: powr_half_sqrt)
  have "(4::real) powr (1 / 2 - 1) = 4 powr (1 / 2) / 4 powr 1" by (rule powr_diff)
  then have p2: "(4::real) powr (1 / 2 - 1) = 1 / 2" using p1 by simp
  have "(4::real) powr (1 / 2 - 2) = 4 powr (1 / 2) / 4 powr 2" by (rule powr_diff)
  then have p3: "(4::real) powr (1 / 2 - 2) = 1 / 8" using p1 by simp
  have sq: "sqrt_ad (identity [] [4] [0]) =
        \<lparr>shape = [], val = [2], size_ad1 = 1, coef1 = [[1 / 4]], index = [[0]],
         size_ad2 = 1, coef2 = [[- 1 / 32]], index_row = [[0]], index_col = [[0]]\<rparr>"
    using p1 p2 p3
    by (simp add: sqrt_ad_def pow_ad_def pow2_def math_helper_def identity_def map4_def
        helper_coef2_def np_repeat_def np_tile_def)
  show ?thesis using v ix co1 z sq by blast
qed

text \<open>The chain rule of C2 at a concrete array: the square root of a variable of value 4.\<close>

theorem C2_math_helper_chain_rule_witness:
  "wf (identity [] [4] [0]) \<and> length [2::real] = length (val (identity [] [4] [0]))
   \<and> (0::nat) < length (val (identity [] [4] [0]))
   \<and> coef1 (math_helper (identity [] [4] [0]) ([2], [1 / 4], [- 1 / 32])) ! 0 = [1 / 4]
   \<and> zip (coef2 (math_helper (identity [] [4] [0]) ([2], [1 / 4], [- 1 / 32])) ! 0)
          (zip (index_row (math_helper (identity [] [4] [0]) ([2], [1 / 4], [- 1 / 32])) ! 0)
               (index_col (math_helper (identity [] [4] [0]) ([2], [1 / 4], [- 1 / 32])) ! 0)) =
       [(- 1 / 32, 0, 0)]"
proof -
  have w: "wf (identity [] [4] [0])" by (simp add: wf_def identity_def rows_ok_def)
  have l: "length [2::real] = length (val (identity [] [4] [0]))"
          "length [1 / 4::real] = length (val (identity [] [4] [0]))"
          "length [- 1 / 32::real] = length (val (identity [] [4] [0]))"
          "(0::nat) < length (val (identity [] [4] [0]))"
    by (simp_all add: identity_def)
  show ?thesis
    using C2_math_helper_chain_rule [OF w l] w l by (simp add: identity_def)
qed

subsection \<open>The scatter loop\<close>
lemma norm_index_less: "norm_index n i = Some j \<Longrightarrow> j < n"
  by (auto simp: norm_index_def split: if_splits)

lemma scatter_length: "scatter acc ts = Inr r \<Longrightarrow> length r = length acc"
proof (induction ts arbitrary: acc)
  case Nil
  then show ?case by simp
next
  case (Cons t ts)
  obtain c i where t: "t = (c, i)" by (cases t)
  from Cons.prems t obtain j where j: "norm_index (length acc) i = Some j"
    and r: "scatter (acc[j := acc ! j + c]) ts = Inr r"
    by (auto split: option.splits)
  from Cons.IH [OF r] show ?case by simp
qed

lemma scatter_cells:
  "scatter acc ts = Inr r \<Longrightarrow> j < length acc \<Longrightarrow> r ! j = acc ! j + cell_sum (length acc) ts j"
proof (induction ts arbitrary: acc)
  case Nil
  then show ?case by (simp add: cell_sum_def)
next
  case (Cons t ts)
  obtain c i where t: "t = (c, i)" by (cases t)
  from Cons.prems t obtain k where k: "norm_index (length acc) i = Some k"
    and r: "scatter (acc[k := acc ! k + c]) ts = Inr r"
    by (auto split: option.splits)
  have kl: "k < length acc" using k by (rule norm_index_less)
  have "r ! j = (acc[k := acc ! k + c]) ! j + cell_sum (length acc) ts j"
    using Cons.IH [OF r] Cons.prems(2) by simp
  then show ?case using t k kl Cons.prems(2)
    by (auto simp: cell_sum_def nth_list_update)
qed


lemma scatter_ok:
  "(\<forall>t\<in>set ts. norm_index (length acc) (snd t) \<noteq> None) \<Longrightarrow> \<exists>r. scatter acc ts = Inr r"
proof (induction ts arbitrary: acc)
  case Nil
  then show ?case by simp
next
  case (Cons t ts)
  obtain c i where t: "t = (c, i)" by (cases t)
  from Cons.prems t obtain k where k: "norm_index (length acc) i = Some k" by auto
  have "\<forall>t\<in>set ts. norm_index (length (acc[k := acc ! k + c])) (snd t) \<noteq> None"
    using Cons.prems by simp
  from Cons.IH [OF this] show ?case using t k by simp
qed


lemma collect_Inr: "collect rs = Inr vs \<Longrightarrow> rs = map Inr vs"
proof (induction rs arbitrary: vs)
  case Nil
  then show ?case by simp
next
  case (Cons r rs)
  then show ?case by (cases r) (auto split: sum.splits)
qed

lemma collect_map_Inr: "collect (map Inr vs) = Inr vs"
  by (induction vs) auto

lemma collect_all_ok:
  "(\<forall>r\<in>set rs. \<exists>v. r = Inr v) \<Longrightarrow> \<exists>vs. collect rs = Inr vs"
proof (induction rs)
  case Nil
  then show ?case by simp
next
  case (Cons r rs)
  then show ?case by (cases r) auto
qed


lemma collect_fails: "Inl e \<in> set rs \<Longrightarrow> \<exists>e'. collect rs = Inl e'"
proof (induction rs)
  case Nil
  then show ?case by simp
next
  case (Cons r rs)
  then show ?case by (cases r) (auto split: sum.splits)
qed

subsection \<open>Dense conversion\<close>

lemma wf_rows:
  assumes "wf x" "e < length (val x)"
  shows "length (coef1 x) = length (val x)" "length (coef1 x ! e) = size_ad1 x"
    "length (index x) = length (val x)" "length (index x ! e) = size_ad1 x"
    "length (coef2 x) = length (val x)" "length (coef2 x ! e) = size_ad2 x"
    "length (index_row x) = length (val x)" "length (index_row x ! e) = size_ad2 x"
    "length (index_col x) = length (val x)" "length (index_col x ! e) = size_ad2 x"
  using assms by (auto simp: wf_def dest: rows_okD)

lemma reshape2_nth: "r < n \<Longrightarrow> c < n \<Longrightarrow> reshape2 n xs ! r ! c = xs ! (r * n + c)"
  by (simp add: reshape2_def)

lemma cell_in_square: "r < n \<Longrightarrow> c < n \<Longrightarrow> r * n + c < n * (n::nat)"
proof -
  assume r: "r < n" and c: "c < n"
  have "r * n + c < r * n + n" using c by simp
  also have "\<dots> = Suc r * n" by simp
  also have "\<dots> \<le> n * n" using r by (metis Suc_leI mult_le_mono1)
  finally show ?thesis .
qed

lemma to_dense_Inr:
  assumes d: "to_dense x (Some (int b)) = Inr d" and e: "e < length (val x)" and w: "wf x"
  shows "scatter (replicate b 0) (zip (coef1 x ! e) (index x ! e)) = Inr (d_coef1 d ! e)"
    and "\<exists>flat. scatter (replicate (b * b) 0)
           (zip (coef2 x ! e) (map2 (\<lambda>r c. r * int b + c) (index_row x ! e) (index_col x ! e))) = Inr flat
         \<and> d_coef2 d ! e = reshape2 b flat"
    and "length (d_coef1 d) = length (val x)" and "length (d_coef2 d) = length (val x)"
    and "d_val d = val x" and "d_shape d = shape x"
proof -
  note l = wf_rows [OF w e]
  from d obtain c1 c2 where
    c1: "collect (map2 (\<lambda>cs ks. scatter (replicate b 0) (zip cs ks)) (coef1 x) (index x)) = Inr c1"
    and c2: "collect (map2 (\<lambda>cs ks. scatter (replicate (b * b) 0) (zip cs ks)) (coef2 x)
               (map2 (map2 (\<lambda>r c. r * int b + c)) (index_row x) (index_col x))) = Inr c2"
    and dd: "d = \<lparr>d_shape = shape x, d_val = val x, d_coef1 = c1, d_coef2 = map (reshape2 b) c2\<rparr>"
    by (auto simp: to_dense_def Let_def split: sum.splits)
  have m1: "map2 (\<lambda>cs ks. scatter (replicate b 0) (zip cs ks)) (coef1 x) (index x) = map Inr c1"
    using c1 by (rule collect_Inr)
  have m2: "map2 (\<lambda>cs ks. scatter (replicate (b * b) 0) (zip cs ks)) (coef2 x)
               (map2 (map2 (\<lambda>r c. r * int b + c)) (index_row x) (index_col x)) = map Inr c2"
    using c2 by (rule collect_Inr)
  have n1: "length c1 = length (val x)"
    using arg_cong [OF m1, of length] l by simp
  have n2: "length c2 = length (val x)"
    using arg_cong [OF m2, of length] l by simp
  have "map2 (\<lambda>cs ks. scatter (replicate b 0) (zip cs ks)) (coef1 x) (index x) ! e = map Inr c1 ! e"
    using m1 by simp
  then have s1: "scatter (replicate b 0) (zip (coef1 x ! e) (index x ! e)) = Inr (c1 ! e)"
    using e l n1 by simp
  have "map2 (\<lambda>cs ks. scatter (replicate (b * b) 0) (zip cs ks)) (coef2 x)
               (map2 (map2 (\<lambda>r c. r * int b + c)) (index_row x) (index_col x)) ! e = map Inr c2 ! e"
    using m2 by simp
  then have s2: "scatter (replicate (b * b) 0)
           (zip (coef2 x ! e) (map2 (\<lambda>r c. r * int b + c) (index_row x ! e) (index_col x ! e))) = Inr (c2 ! e)"
    using e l n2 by simp
  show "scatter (replicate b 0) (zip (coef1 x ! e) (index x ! e)) = Inr (d_coef1 d ! e)"
    using s1 dd by simp
  show "\<exists>flat. scatter (replicate (b * b) 0)
           (zip (coef2 x ! e) (map2 (\<lambda>r c. r * int b + c) (index_row x ! e) (index_col x ! e))) = Inr flat
         \<and> d_coef2 d ! e = reshape2 b flat"
    using s2 dd e n2 by simp
  show "length (d_coef1 d) = length (val x)" using dd n1 by simp
  show "length (d_coef2 d) = length (val x)" using dd n2 by simp
  show "d_val d = val x" "d_shape d = shape x" using dd by simp_all
qed

lemma to_dense_cells:
  assumes d: "to_dense x (Some (int b)) = Inr d" and e: "e < length (val x)" and w: "wf x"
  shows "length (d_coef1 d ! e) = b"
    and "j < b \<Longrightarrow> d_coef1 d ! e ! j = cell_sum b (zip (coef1 x ! e) (index x ! e)) j"
    and "r < b \<Longrightarrow> c < b \<Longrightarrow> d_coef2 d ! e ! r ! c =
           cell_sum (b * b)
             (zip (coef2 x ! e) (map2 (\<lambda>r c. r * int b + c) (index_row x ! e) (index_col x ! e)))
             (r * b + c)"
proof -
  note t = to_dense_Inr [OF d e w]
  show "length (d_coef1 d ! e) = b" using scatter_length [OF t(1)] by simp
  show "d_coef1 d ! e ! j = cell_sum b (zip (coef1 x ! e) (index x ! e)) j" if "j < b"
    using scatter_cells [OF t(1), of j] that by simp
  show "d_coef2 d ! e ! r ! c =
           cell_sum (b * b)
             (zip (coef2 x ! e) (map2 (\<lambda>r c. r * int b + c) (index_row x ! e) (index_col x ! e)))
             (r * b + c)" if "r < b" "c < b"
  proof -
    from t(2) obtain flat where f: "scatter (replicate (b * b) 0)
           (zip (coef2 x ! e) (map2 (\<lambda>r c. r * int b + c) (index_row x ! e) (index_col x ! e))) = Inr flat"
      and df: "d_coef2 d ! e = reshape2 b flat" by blast
    have "r * b + c < b * b" using that by (rule cell_in_square)
    then show ?thesis using scatter_cells [OF f, of "r * b + c"] df that
      by (simp add: reshape2_nth)
  qed
qed


lemma fold_max_Max: "fold max xs (m::int) = Max (insert m (set xs))"
proof -
  have "Max (set (m # xs)) = fold max xs m" by (rule Max.set_eq_fold)
  then show ?thesis by simp
qed

lemma bound_ad_Max:
  "bound_ad x = 1 + Max (insert (- 1)
     (set (concat (index x)) \<union> set (concat (index_row x)) \<union> set (concat (index_col x))))"
proof -
  let ?A = "insert (- 1) (set (concat (index x)))"
  let ?B = "insert (- 1) (set (concat (index_row x)))"
  let ?C = "insert (- 1 :: int) (set (concat (index_col x)))"
  have "max (Max ?A) (max (Max ?B) (Max ?C)) = Max (?A \<union> (?B \<union> ?C))"
    by (simp add: Max_Un [symmetric] del: Max_insert)
  moreover have "?A \<union> (?B \<union> ?C) = insert (- 1)
     (set (concat (index x)) \<union> set (concat (index_row x)) \<union> set (concat (index_col x)))"
    by auto
  ultimately show ?thesis
    by (simp add: bound_ad_def np_max_initial_def fold_max_Max del: Max_insert)
qed

lemma norm_index_in_range: "0 \<le> i \<Longrightarrow> i < int n \<Longrightarrow> norm_index n i = Some (nat i)"
  by (simp add: norm_index_def)

lemma cell_sum_exact1:
  assumes "\<forall>t\<in>set ts. 0 \<le> snd t \<and> snd t < int n"
  shows "cell_sum n ts j = sum_list (map fst (filter (\<lambda>t. snd t = int j) ts))"
proof -
  have "filter (\<lambda>t. norm_index n (snd t) = Some j) ts = filter (\<lambda>t. snd t = int j) ts"
  proof (rule filter_cong [OF refl])
    fix t assume "t \<in> set ts"
    then have "0 \<le> snd t" "snd t < int n" using assms by auto
    then show "(norm_index n (snd t) = Some j) = (snd t = int j)"
      by (auto simp: norm_index_in_range)
  qed
  then show ?thesis by (simp add: cell_sum_def)
qed

lemma key_in_range:
  assumes "0 \<le> r" "r < int b" "0 \<le> k" "k < int b"
  shows "0 \<le> r * int b + k" and "r * int b + k < int (b * b)"
proof -
  show "0 \<le> r * int b + k" using assms by simp
  have "r + 1 \<le> int b" using assms by simp
  then have "(r + 1) * int b \<le> int b * int b" by (intro mult_right_mono) simp_all
  moreover have "r * int b + k < (r + 1) * int b" using assms by (simp add: algebra_simps)
  ultimately show "r * int b + k < int (b * b)" by simp
qed

lemma key_eq_iff:
  assumes "0 \<le> r" "0 \<le> k" "k < int b" "c < b"
  shows "nat (r * int b + k) = r' * b + c \<longleftrightarrow> r = int r' \<and> k = int c"
proof
  assume h: "nat (r * int b + k) = r' * b + c"
  have nn: "0 \<le> r * int b + k" using assms by simp
  have eq: "r * int b + k = int r' * int b + int c"
    using h nn by (metis int_nat_eq of_nat_add of_nat_mult)
  have b0: "0 < int b" using assms by simp
  have "(r * int b + k) div int b = r" using assms b0 by simp
  moreover have "(int r' * int b + int c) div int b = int r'" using assms b0 by simp
  ultimately have r: "r = int r'" using eq by simp
  then show "r = int r' \<and> k = int c" using eq by simp
next
  assume "r = int r' \<and> k = int c"
  then show "nat (r * int b + k) = r' * b + c"
    by (metis nat_int of_nat_add of_nat_mult)
qed

lemma cell_sum_exact2:
  assumes "\<forall>r\<in>set rs. 0 \<le> r \<and> r < int b" and "\<forall>k\<in>set ks. 0 \<le> k \<and> k < int b" and "c < b"
  shows "cell_sum (b * b) (zip cs (map2 (\<lambda>r c. r * int b + c) rs ks)) (r' * b + c) =
         sum_list (map fst (filter (\<lambda>t. snd t = (int r', int c)) (zip cs (zip rs ks))))"
proof -
  let ?g = "\<lambda>t :: real \<times> int \<times> int. (fst t, fst (snd t) * int b + snd (snd t))"
  have z: "zip cs (map2 (\<lambda>r c. r * int b + c) rs ks) = map ?g (zip cs (zip rs ks))"
    by (simp add: zip_map2 case_prod_unfold)
  have f: "filter ((\<lambda>t. norm_index (b * b) (snd t) = Some (r' * b + c)) \<circ> ?g) (zip cs (zip rs ks)) =
           filter (\<lambda>t. snd t = (int r', int c)) (zip cs (zip rs ks))"
  proof (rule filter_cong [OF refl])
    fix t assume t: "t \<in> set (zip cs (zip rs ks))"
    obtain u r k where tt: "t = (u, r, k)" by (cases t) auto
    have "(r, k) \<in> set (zip rs ks)" using t tt by (auto dest: set_zip_rightD)
    then have "r \<in> set rs" "k \<in> set ks" by (auto dest: set_zip_leftD set_zip_rightD)
    then have rk: "0 \<le> r" "r < int b" "0 \<le> k" "k < int b" using assms by auto
    have "norm_index (b * b) (r * int b + k) = Some (nat (r * int b + k))"
      using key_in_range [OF rk] by (rule norm_index_in_range)
    then show "((\<lambda>t. norm_index (b * b) (snd t) = Some (r' * b + c)) \<circ> ?g) t = (snd t = (int r', int c))"
      using key_eq_iff [OF rk(1) rk(3) rk(4) assms(3), of r'] tt by simp
  qed
  have "cell_sum (b * b) (zip cs (map2 (\<lambda>r c. r * int b + c) rs ks)) (r' * b + c) =
        sum_list (map (fst \<circ> ?g)
          (filter ((\<lambda>t. norm_index (b * b) (snd t) = Some (r' * b + c)) \<circ> ?g) (zip cs (zip rs ks))))"
    unfolding cell_sum_def z filter_map by simp
  also have "fst \<circ> ?g = fst" by auto
  finally show ?thesis using f by (simp add: comp_def)
qed


lemma in_set_map2: "z \<in> set (map2 g xs ys) \<Longrightarrow> \<exists>a\<in>set xs. \<exists>b\<in>set ys. z = g a b"
  by (auto dest: set_zip_leftD set_zip_rightD)

lemma snd_in_zip: "t \<in> set (zip xs ys) \<Longrightarrow> snd t \<in> set ys"
  using set_zip_rightD [of "fst t" "snd t" xs ys] by simp

lemma indices_belowD:
  assumes "indices_below x b"
  shows "ks \<in> set (index x) \<Longrightarrow> i \<in> set ks \<Longrightarrow> 0 \<le> i \<and> i < b"
    and "ks \<in> set (index_row x) \<Longrightarrow> i \<in> set ks \<Longrightarrow> 0 \<le> i \<and> i < b"
    and "ks \<in> set (index_col x) \<Longrightarrow> i \<in> set ks \<Longrightarrow> 0 \<le> i \<and> i < b"
  using assms by (auto simp: indices_below_def)

lemma to_dense_in_range:
  assumes "indices_below x (int b)"
  shows "\<exists>d. to_dense x (Some (int b)) = Inr d"
proof -
  have "\<forall>r\<in>set (map2 (\<lambda>cs ks. scatter (replicate b 0) (zip cs ks)) (coef1 x) (index x)). \<exists>v. r = Inr v"
  proof
    fix r assume "r \<in> set (map2 (\<lambda>cs ks. scatter (replicate b 0) (zip cs ks)) (coef1 x) (index x))"
    from in_set_map2 [OF this] obtain cs ks where ks: "ks \<in> set (index x)"
      and r: "r = scatter (replicate b 0) (zip cs ks)"
      by blast
    have "\<forall>t\<in>set (zip cs ks). norm_index (length (replicate b (0::real))) (snd t) \<noteq> None"
    proof
      fix t assume "t \<in> set (zip cs ks)"
      then have "snd t \<in> set ks" by (rule snd_in_zip)
      then have "0 \<le> snd t \<and> snd t < int b" using indices_belowD(1) [OF assms ks] by blast
      then show "norm_index (length (replicate b (0::real))) (snd t) \<noteq> None"
        by (simp add: norm_index_in_range)
    qed
    from scatter_ok [OF this] show "\<exists>v. r = Inr v" using r by simp
  qed
  from collect_all_ok [OF this] obtain c1 where
    c1: "collect (map2 (\<lambda>cs ks. scatter (replicate b 0) (zip cs ks)) (coef1 x) (index x)) = Inr c1"
    by blast
  have "\<forall>r\<in>set (map2 (\<lambda>cs ks. scatter (replicate (b * b) 0) (zip cs ks)) (coef2 x)
               (map2 (map2 (\<lambda>r c. r * int b + c)) (index_row x) (index_col x))). \<exists>v. r = Inr v"
  proof
    fix r assume "r \<in> set (map2 (\<lambda>cs ks. scatter (replicate (b * b) 0) (zip cs ks)) (coef2 x)
               (map2 (map2 (\<lambda>r c. r * int b + c)) (index_row x) (index_col x)))"
    from in_set_map2 [OF this] obtain cs keys where keys: "keys \<in> set (map2 (map2 (\<lambda>r c. r * int b + c)) (index_row x) (index_col x))"
      and r: "r = scatter (replicate (b * b) 0) (zip cs keys)"
      by blast
    from in_set_map2 [OF keys] obtain rs ks where rs: "rs \<in> set (index_row x)"
      and ks: "ks \<in> set (index_col x)" and k: "keys = map2 (\<lambda>r c. r * int b + c) rs ks"
      by blast
    have "\<forall>t\<in>set (zip cs keys). norm_index (length (replicate (b * b) (0::real))) (snd t) \<noteq> None"
    proof
      fix t assume "t \<in> set (zip cs keys)"
      then have "snd t \<in> set keys" by (rule snd_in_zip)
      then obtain r' k' where r': "r' \<in> set rs" and k': "k' \<in> set ks"
        and t: "snd t = r' * int b + k'"
        unfolding k by (blast dest: in_set_map2)
      have "0 \<le> r' \<and> r' < int b" using indices_belowD(2) [OF assms rs r'] .
      moreover have "0 \<le> k' \<and> k' < int b" using indices_belowD(3) [OF assms ks k'] .
      ultimately have "0 \<le> snd t" "snd t < int (b * b)"
        using key_in_range [of r' b k'] t by simp_all
      then show "norm_index (length (replicate (b * b) (0::real))) (snd t) \<noteq> None"
        by (simp add: norm_index_in_range)
    qed
    from scatter_ok [OF this] show "\<exists>v. r = Inr v" using r by simp
  qed
  from collect_all_ok [OF this] obtain c2 where
    c2: "collect (map2 (\<lambda>cs ks. scatter (replicate (b * b) 0) (zip cs ks)) (coef2 x)
               (map2 (map2 (\<lambda>r c. r * int b + c)) (index_row x) (index_col x))) = Inr c2"
    by blast
  show ?thesis using c1 c2 by (simp add: to_dense_def Let_def)
qed

text \<open>
  Claim C4. \<open>to_dense(bound)\<close> adds every first order coefficient to the cell of its
  index in a dense vector of length \<open>bound\<close>, and every second order coefficient to the
  cell of its (row, column) in a dense \<open>bound\<close> by \<open>bound\<close> matrix, so that a cell holds
  the sum of all the contributions that land on it. Without \<open>bound\<close>, the bound is one
  more than the largest index in \<open>index\<close>, \<open>index_row\<close> and \<open>index_col\<close> (and 0 when
  there is none). The third part holds for any indices that numpy accepts (a cell is
  the sum of the terms that \<open>scatter\<close> sends to it); the last part is the case of
  indices between 0 and \<open>bound\<close>, where a term lands on the cell of its own index.
\<close>

theorem C4_to_dense_scatter:
  assumes "wf x" and "e < length (val x)" and "j < b" and "r < b" and "c < b"
  shows "to_dense x None = to_dense x (Some (bound_ad x))
    \<and> bound_ad x = 1 + Max (insert (- 1)
         (set (concat (index x)) \<union> set (concat (index_row x)) \<union> set (concat (index_col x))))
    \<and> (\<forall>d. to_dense x (Some (int b)) = Inr d \<longrightarrow>
          d_val d = val x \<and> length (d_coef1 d ! e) = b
          \<and> d_coef1 d ! e ! j = cell_sum b (zip (coef1 x ! e) (index x ! e)) j
          \<and> d_coef2 d ! e ! r ! c =
              cell_sum (b * b)
                (zip (coef2 x ! e) (map2 (\<lambda>r c. r * int b + c) (index_row x ! e) (index_col x ! e)))
                (r * b + c))
    \<and> (indices_below x (int b) \<longrightarrow>
         (\<exists>d. to_dense x (Some (int b)) = Inr d
            \<and> d_coef1 d ! e ! j =
                sum_list (map fst (filter (\<lambda>t. snd t = int j) (zip (coef1 x ! e) (index x ! e))))
            \<and> d_coef2 d ! e ! r ! c =
                sum_list (map fst (filter (\<lambda>t. snd t = (int r, int c))
                   (zip (coef2 x ! e) (zip (index_row x ! e) (index_col x ! e)))))))"
proof -
  note l = wf_rows [OF assms(1,2)]
  have dflt: "to_dense x None = to_dense x (Some (bound_ad x))"
    by (simp add: to_dense_def)
  have gen: "\<forall>d. to_dense x (Some (int b)) = Inr d \<longrightarrow>
          d_val d = val x \<and> length (d_coef1 d ! e) = b
          \<and> d_coef1 d ! e ! j = cell_sum b (zip (coef1 x ! e) (index x ! e)) j
          \<and> d_coef2 d ! e ! r ! c =
              cell_sum (b * b)
                (zip (coef2 x ! e) (map2 (\<lambda>r c. r * int b + c) (index_row x ! e) (index_col x ! e)))
                (r * b + c)"
    using to_dense_cells [OF _ assms(2,1)] to_dense_Inr(5) [OF _ assms(2,1)] assms(3,4,5)
    by blast
  have rng: "\<exists>d. to_dense x (Some (int b)) = Inr d
            \<and> d_coef1 d ! e ! j =
                sum_list (map fst (filter (\<lambda>t. snd t = int j) (zip (coef1 x ! e) (index x ! e))))
            \<and> d_coef2 d ! e ! r ! c =
                sum_list (map fst (filter (\<lambda>t. snd t = (int r, int c))
                   (zip (coef2 x ! e) (zip (index_row x ! e) (index_col x ! e)))))"
    if ib: "indices_below x (int b)"
  proof -
    from to_dense_in_range [OF ib] obtain d where d: "to_dense x (Some (int b)) = Inr d" by blast
    have i1: "index x ! e \<in> set (index x)" and i2: "index_row x ! e \<in> set (index_row x)"
      and i3: "index_col x ! e \<in> set (index_col x)"
      using l assms(2) by simp_all
    have "\<forall>t\<in>set (zip (coef1 x ! e) (index x ! e)). 0 \<le> snd t \<and> snd t < int b"
    proof
      fix t assume "t \<in> set (zip (coef1 x ! e) (index x ! e))"
      then have "snd t \<in> set (index x ! e)" by (rule snd_in_zip)
      then show "0 \<le> snd t \<and> snd t < int b" using indices_belowD(1) [OF ib i1] by blast
    qed
    then have e1: "cell_sum b (zip (coef1 x ! e) (index x ! e)) j =
        sum_list (map fst (filter (\<lambda>t. snd t = int j) (zip (coef1 x ! e) (index x ! e))))"
      by (rule cell_sum_exact1)
    have "\<forall>r\<in>set (index_row x ! e). 0 \<le> r \<and> r < int b"
      using indices_belowD(2) [OF ib i2] by blast
    moreover have "\<forall>k\<in>set (index_col x ! e). 0 \<le> k \<and> k < int b"
      using indices_belowD(3) [OF ib i3] by blast
    ultimately have e2: "cell_sum (b * b)
         (zip (coef2 x ! e) (map2 (\<lambda>r c. r * int b + c) (index_row x ! e) (index_col x ! e))) (r * b + c) =
       sum_list (map fst (filter (\<lambda>t. snd t = (int r, int c))
                   (zip (coef2 x ! e) (zip (index_row x ! e) (index_col x ! e)))))"
      using assms(5) by (rule cell_sum_exact2)
    show ?thesis using d gen e1 e2 by auto
  qed
  show ?thesis using dflt bound_ad_Max gen rng by blast
qed


text \<open>An instance of C4: two terms on the same cell are summed.\<close>

theorem C4_to_dense_scatter_witness:
  "wf \<lparr>shape = [], val = [1], size_ad1 = 2, coef1 = [[1, 2]], index = [[1, 1]],
       size_ad2 = 2, coef2 = [[3, 4]], index_row = [[0, 0]], index_col = [[1, 1]]\<rparr>
   \<and> indices_below \<lparr>shape = [], val = [1], size_ad1 = 2, coef1 = [[1, 2]], index = [[1, 1]],
       size_ad2 = 2, coef2 = [[3, 4]], index_row = [[0, 0]], index_col = [[1, 1]]\<rparr> 2
   \<and> (\<exists>d. to_dense \<lparr>shape = [], val = [1], size_ad1 = 2, coef1 = [[1, 2]], index = [[1, 1]],
       size_ad2 = 2, coef2 = [[3, 4]], index_row = [[0, 0]], index_col = [[1, 1]]\<rparr> (Some 2) = Inr d
         \<and> d_coef1 d ! 0 ! 1 = 3 \<and> d_coef2 d ! 0 ! 0 ! 1 = 7)"
proof -
  let ?x = "\<lparr>shape = [], val = [1::real], size_ad1 = 2, coef1 = [[1, 2]], index = [[1, 1]],
       size_ad2 = 2, coef2 = [[3, 4]], index_row = [[0, 0]], index_col = [[1, 1]]\<rparr>"
  have w: "wf ?x" by (simp add: wf_def rows_ok_def)
  have e: "0 < length (val ?x)" by simp
  have ib: "indices_below ?x (int 2)" by (simp add: indices_below_def)
  have "indices_below ?x (int 2) \<longrightarrow>
         (\<exists>d. to_dense ?x (Some (int 2)) = Inr d
            \<and> d_coef1 d ! 0 ! 1 =
                sum_list (map fst (filter (\<lambda>t. snd t = int 1) (zip (coef1 ?x ! 0) (index ?x ! 0))))
            \<and> d_coef2 d ! 0 ! 0 ! 1 =
                sum_list (map fst (filter (\<lambda>t. snd t = (int 0, int 1))
                   (zip (coef2 ?x ! 0) (zip (index_row ?x ! 0) (index_col ?x ! 0))))))"
    using C4_to_dense_scatter [OF w e, of 1 2 0 1] by simp
  then show ?thesis using w ib by simp
qed







subsection \<open>The stationary point\<close>



lemma bound_ad_nonneg: "0 \<le> bound_ad x"
proof -
  have "(- 1::int) \<le> Max (insert (- 1)
     (set (concat (index x)) \<union> set (concat (index_row x)) \<union> set (concat (index_col x))))"
    by (rule Max_ge) simp_all
  then show ?thesis unfolding bound_ad_Max by linarith
qed

lemma index_less_bound_ad:
  assumes "ks \<in> set (index x)" "i \<in> set ks"
  shows "i < bound_ad x"
proof -
  have "i \<le> Max (insert (- 1)
     (set (concat (index x)) \<union> set (concat (index_row x)) \<union> set (concat (index_col x))))"
    using assms by (intro Max_ge) auto
  then show ?thesis unfolding bound_ad_Max by linarith
qed

lemma spAD_to_dense_ok:
  assumes "\<forall>ks\<in>set (sp_index h). \<forall>i\<in>set ks. 0 \<le> i \<and> i < int b"
  shows "\<exists>d. spAD_to_dense h (int b) = Inr d"
proof -
  have "\<forall>r\<in>set (map2 (\<lambda>cs ks. scatter (replicate b 0) (zip cs ks)) (sp_coef h) (sp_index h)). \<exists>v. r = Inr v"
  proof
    fix r assume "r \<in> set (map2 (\<lambda>cs ks. scatter (replicate b 0) (zip cs ks)) (sp_coef h) (sp_index h))"
    from in_set_map2 [OF this] obtain cs ks where ks: "ks \<in> set (sp_index h)"
      and r: "r = scatter (replicate b 0) (zip cs ks)"
      by blast
    have "\<forall>t\<in>set (zip cs ks). norm_index (length (replicate b (0::real))) (snd t) \<noteq> None"
    proof
      fix t assume "t \<in> set (zip cs ks)"
      then have "snd t \<in> set ks" by (rule snd_in_zip)
      then have "0 \<le> snd t \<and> snd t < int b" using assms ks by blast
      then show "norm_index (length (replicate b (0::real))) (snd t) \<noteq> None"
        by (simp add: norm_index_in_range)
    qed
    from scatter_ok [OF this] show "\<exists>v. r = Inr v" using r by simp
  qed
  from collect_all_ok [OF this] show ?thesis by (auto simp: spAD_to_dense_def)
qed

lemma spAD_to_dense_Inr:
  assumes d: "spAD_to_dense h (int b) = Inr d" and e: "e < length (sp_coef h)"
    and l: "length (sp_index h) = length (sp_coef h)"
  shows "scatter (replicate b 0) (zip (sp_coef h ! e) (sp_index h ! e)) = Inr (dn_coef d ! e)
    \<and> length (dn_coef d) = length (sp_coef h)"
proof -
  from d obtain c1 where
    c1: "collect (map2 (\<lambda>cs ks. scatter (replicate b 0) (zip cs ks)) (sp_coef h) (sp_index h)) = Inr c1"
    and dd: "d = \<lparr>dn_shape = sp_shape h, dn_val = sp_val h, dn_coef = c1\<rparr>"
    by (auto simp: spAD_to_dense_def split: sum.splits)
  have m1: "map2 (\<lambda>cs ks. scatter (replicate b 0) (zip cs ks)) (sp_coef h) (sp_index h) = map Inr c1"
    using c1 by (rule collect_Inr)
  have n1: "length c1 = length (sp_coef h)"
    using arg_cong [OF m1, of length] l by simp
  have "map2 (\<lambda>cs ks. scatter (replicate b 0) (zip cs ks)) (sp_coef h) (sp_index h) ! e = map Inr c1 ! e"
    using m1 by simp
  then have "scatter (replicate b 0) (zip (sp_coef h ! e) (sp_index h ! e)) = Inr (dn_coef d ! e)"
    using e l n1 dd by simp
  then show ?thesis using dd n1 by simp
qed

lemma spAD_to_dense_length:
  assumes d: "spAD_to_dense h (int b) = Inr d"
    and l: "length (sp_index h) = length (sp_coef h)"
  shows "length (dn_coef d) = length (sp_coef h)"
proof -
  from d obtain c1 where
    c1: "collect (map2 (\<lambda>cs ks. scatter (replicate b 0) (zip cs ks)) (sp_coef h) (sp_index h)) = Inr c1"
    and dd: "d = \<lparr>dn_shape = sp_shape h, dn_val = sp_val h, dn_coef = c1\<rparr>"
    by (auto simp: spAD_to_dense_def split: sum.splits)
  have m1: "map2 (\<lambda>cs ks. scatter (replicate b 0) (zip cs ks)) (sp_coef h) (sp_index h) = map Inr c1"
    using c1 by (rule collect_Inr)
  show ?thesis using arg_cong [OF m1, of length] l dd by simp
qed

lemma solve_stationnary_raw_ok:
  assumes w: "wf x" and nn: "\<forall>i\<in>set (concat (index x)). 0 \<le> i"
  shows "\<exists>rhs. solve_stationnary_raw x = Inr (triplets x, rhs)
     \<and> length rhs = length (val x)
     \<and> (\<forall>e<length (val x). length (rhs ! e) = nat (bound_ad x)
          \<and> (\<forall>j<nat (bound_ad x). rhs ! e ! j =
                - sum_list (map fst (filter (\<lambda>t. snd t = int j) (zip (coef1 x ! e) (index x ! e))))))"
proof -
  let ?b = "nat (bound_ad x)"
  have b: "int ?b = bound_ad x" using bound_ad_nonneg [of x] by simp
  have rng: "\<forall>ks\<in>set (sp_index (to_first x)). \<forall>i\<in>set ks. 0 \<le> i \<and> i < int ?b"
    using nn index_less_bound_ad [of _ x] b by (auto simp: to_first_def)
  from spAD_to_dense_ok [OF rng] obtain d where d: "spAD_to_dense (to_first x) (int ?b) = Inr d"
    by blast
  have lc: "length (sp_coef (to_first x)) = length (val x)"
    and li: "length (sp_index (to_first x)) = length (sp_coef (to_first x))"
    using w by (simp_all add: wf_def rows_ok_def to_first_def)
  have raw: "solve_stationnary_raw x = Inr (triplets x, map (map uminus) (dn_coef d))"
    using d b by (simp add: solve_stationnary_raw_def)
  have len: "length (map (map uminus) (dn_coef d)) = length (val x)"
    using spAD_to_dense_length [OF d li] lc by simp
  have cells: "length (map (map uminus) (dn_coef d) ! e) = ?b
      \<and> (\<forall>j<?b. map (map uminus) (dn_coef d) ! e ! j =
            - sum_list (map fst (filter (\<lambda>t. snd t = int j) (zip (coef1 x ! e) (index x ! e)))))"
    if e: "e < length (val x)" for e
  proof -
    have e': "e < length (sp_coef (to_first x))" using e lc by simp
    have s: "scatter (replicate ?b 0) (zip (coef1 x ! e) (index x ! e)) = Inr (dn_coef d ! e)"
      using spAD_to_dense_Inr [OF d e' li] by (simp add: to_first_def)
    have le: "length (dn_coef d ! e) = ?b" using scatter_length [OF s] by simp
    have ie: "index x ! e \<in> set (index x)" using e w by (simp add: wf_def rows_ok_def)
    have "\<forall>t\<in>set (zip (coef1 x ! e) (index x ! e)). 0 \<le> snd t \<and> snd t < int ?b"
    proof
      fix t assume "t \<in> set (zip (coef1 x ! e) (index x ! e))"
      then have "snd t \<in> set (index x ! e)" by (rule snd_in_zip)
      then show "0 \<le> snd t \<and> snd t < int ?b"
        using nn ie index_less_bound_ad [OF ie] b by auto
    qed
    then have ex: "cell_sum ?b (zip (coef1 x ! e) (index x ! e)) j =
        sum_list (map fst (filter (\<lambda>t. snd t = int j) (zip (coef1 x ! e) (index x ! e))))" for j
      by (rule cell_sum_exact1)
    have "dn_coef d ! e ! j = sum_list (map fst (filter (\<lambda>t. snd t = int j) (zip (coef1 x ! e) (index x ! e))))"
      if "j < ?b" for j
      using scatter_cells [OF s, of j] that ex by simp
    then show ?thesis using le e len by simp
  qed
  show ?thesis using raw len cells by blast
qed





subsection \<open>The weak form\<close>

lemma singleton_list: "length xs = 1 \<Longrightarrow> xs = [xs ! 0]"
  by (cases xs) auto

lemma concat_singleton: "length xs = 1 \<Longrightarrow> concat xs = xs ! 0"
  by (cases xs) auto

lemma zip_map3: "zip (map f xs) (zip (map g xs) (map h xs)) = map (\<lambda>x. (f x, g x, h x)) xs"
  by (induction xs) auto

text \<open>
  Claim C3, as amended. For an array scalar with first order indices that are not
  negative, the split point is \<open>n = bound div 2\<close>, half of the number of cells of the
  right hand side. \<open>solve_weakform\<close> builds the full system, keeps the triplets whose row
  is at least \<open>n\<close> and whose column is below \<open>n\<close> (the rows counted from \<open>n\<close>), and
  keeps the cells of the right hand side from \<open>n\<close> on: the equations are those of the
  upper block of indices and the unknowns those of the lower block, as the docstring
  says (\<open>Q(u, v)\<close> with \<open>u\<close> first; find \<open>u\<close> such that \<open>Q\<close> is independent of \<open>v\<close>).
  \<open>raw=True\<close> returns this reduced system and \<open>raw=False\<close> hands it to the solver.
\<close>

theorem C3_solve_weakform:
  assumes "wf x" and "shape x = []" and "\<forall>i\<in>set (concat (index x)). 0 \<le> i"
  shows "\<exists>coef row col rhs.
      solve_weakform spsolve x True = Inr (Inl ((coef, (row, col)), [rhs]))
    \<and> solve_weakform spsolve x False =
        (case spsolve (coef, (row, col)) [rhs] of Inl e \<Rightarrow> Inl e | Inr u \<Rightarrow> Inr (Inr u))
    \<and> zip coef (zip row col) =
        map (\<lambda>(c, r, k). (c, r - int (nat (bound_ad x) div 2), k))
          (filter (\<lambda>(c, r, k). int (nat (bound_ad x) div 2) \<le> r \<and> k < int (nat (bound_ad x) div 2))
             (zip (coef2 x ! 0) (zip (index_row x ! 0) (index_col x ! 0))))
    \<and> length coef = length row \<and> length row = length col
    \<and> length rhs = nat (bound_ad x) - nat (bound_ad x) div 2
    \<and> (\<forall>i < nat (bound_ad x) - nat (bound_ad x) div 2.
          rhs ! i = - sum_list (map fst (filter (\<lambda>t. snd t = int (nat (bound_ad x) div 2 + i))
                                           (zip (coef1 x ! 0) (index x ! 0)))))"
proof -
  let ?B = "nat (bound_ad x)"
  let ?n = "?B div 2"
  let ?P = "\<lambda>(c :: real, r :: int, k :: int). int ?n \<le> r \<and> k < int ?n"
  let ?ts = "zip (coef2 x ! 0) (zip (index_row x ! 0) (index_col x ! 0))"
  have v1: "length (val x) = 1" using assms(1,2) by (simp add: wf_def)
  have l1: "length (coef2 x) = 1" "length (index_row x) = 1" "length (index_col x) = 1"
    using assms(1) v1 by (simp_all add: wf_def rows_ok_def)
  from solve_stationnary_raw_ok [OF assms(1,3)] obtain rhs0 where
    raw: "solve_stationnary_raw x = Inr (triplets x, rhs0)"
    and len: "length rhs0 = length (val x)"
    and cells: "\<forall>e<length (val x). length (rhs0 ! e) = ?B
          \<and> (\<forall>j<?B. rhs0 ! e ! j =
                - sum_list (map fst (filter (\<lambda>t. snd t = int j) (zip (coef1 x ! e) (index x ! e)))))"
    by blast
  let ?g = "rhs0 ! 0"
  have r0: "rhs0 = [?g]" using len v1 by (simp add: singleton_list)
  have cg: "concat rhs0 = ?g" using len v1 by (simp add: concat_singleton)
  have lg: "length ?g = ?B" using cells v1 by simp
  have gj: "?g ! j = - sum_list (map fst (filter (\<lambda>t. snd t = int j) (zip (coef1 x ! 0) (index x ! 0))))"
    if "j < ?B" for j using cells v1 that by simp
  let ?pos = "filter ?P ?ts"
  let ?coef = "map fst ?pos"
  let ?row = "map (\<lambda>(c, r, k). r - int ?n) ?pos"
  let ?col = "map (\<lambda>(c, r, k). k) ?pos"
  let ?rhs = "drop ?n ?g"
  have wr: "solve_weakform_raw x = Inr ((?coef, (?row, ?col)), [?rhs])"
  proof -
    have "map (drop (length (concat rhs0) div 2)) rhs0 = [?rhs]"
      using cg lg by (subst (2) r0) simp
    then show ?thesis
      using raw cg lg assms(2) l1
      by (simp add: solve_weakform_raw_def triplets_def Let_def concat_singleton)
  qed
  have t: "solve_weakform spsolve x True = Inr (Inl ((?coef, (?row, ?col)), [?rhs]))"
    using wr by (simp add: solve_weakform_def)
  have f: "solve_weakform spsolve x False =
        (case spsolve (?coef, (?row, ?col)) [?rhs] of Inl e \<Rightarrow> Inl e | Inr u \<Rightarrow> Inr (Inr u))"
    using wr by (simp add: solve_weakform_def)
  have z: "zip ?coef (zip ?row ?col) = map (\<lambda>(c, r, k). (c, r - int ?n, k)) ?pos"
    by (simp add: zip_map3 case_prod_unfold)
  have ls: "length ?coef = length ?row" "length ?row = length ?col" by simp_all
  have lr: "length ?rhs = ?B - ?n" using lg by simp
  have ri: "?rhs ! i = - sum_list (map fst (filter (\<lambda>t. snd t = int (?n + i))
                                           (zip (coef1 x ! 0) (index x ! 0))))"
    if "i < ?B - ?n" for i
  proof -
    have "?n + i < ?B" using that by simp
    then show ?thesis using gj [of "?n + i"] lg by simp
  qed
  show ?thesis using t f z ls lr ri by blast
qed


text \<open>
  An instance of C3 as amended: the quadratic form \<open>3 u v - 6 v\<close> at the origin.
\<close>

theorem C3_solve_weakform_witness:
  "wf \<lparr>shape = [], val = [0], size_ad1 = 2, coef1 = [[- 6, 0]], index = [[0, 1]],
       size_ad2 = 2, coef2 = [[3, 3]], index_row = [[0, 1]], index_col = [[1, 0]]\<rparr>
   \<and> list_all (\<lambda>i. 0 \<le> i) [0, 1::int]
   \<and> (\<exists>coef row col rhs. solve_weakform (\<lambda>m r. Inr ([]::real list))
         \<lparr>shape = [], val = [0], size_ad1 = 2, coef1 = [[- 6, 0]], index = [[0, 1]],
          size_ad2 = 2, coef2 = [[3, 3]], index_row = [[0, 1]], index_col = [[1, 0]]\<rparr> True =
          Inr (Inl ((coef, (row, col)), [rhs]))
        \<and> zip coef (zip row col) = [(3, 0, 0)] \<and> length rhs = 1 \<and> rhs ! 0 = 0)"
proof -
  let ?x = "\<lparr>shape = [], val = [0::real], size_ad1 = 2, coef1 = [[- 6, 0]], index = [[0, 1]],
       size_ad2 = 2, coef2 = [[3, 3]], index_row = [[0, 1]], index_col = [[1, 0]]\<rparr>"
  have w: "wf ?x" by (simp add: wf_def rows_ok_def)
  have sh: "shape ?x = []" by simp
  have nn: "\<forall>i\<in>set (concat (index ?x)). 0 \<le> i" by simp
  have b: "bound_ad ?x = 2" by (simp add: bound_ad_def np_max_initial_def)
  from C3_solve_weakform [OF w sh nn, of "\<lambda>m r. Inr ([]::real list)"]
  obtain coef row col rhs where
    t: "solve_weakform (\<lambda>m r. Inr ([]::real list)) ?x True = Inr (Inl ((coef, (row, col)), [rhs]))"
    and z: "zip coef (zip row col) =
        map (\<lambda>(c, r, k). (c, r - int (nat (bound_ad ?x) div 2), k))
          (filter (\<lambda>(c, r, k). int (nat (bound_ad ?x) div 2) \<le> r \<and> k < int (nat (bound_ad ?x) div 2))
             (zip (coef2 ?x ! 0) (zip (index_row ?x ! 0) (index_col ?x ! 0))))"
    and lr: "length rhs = nat (bound_ad ?x) - nat (bound_ad ?x) div 2"
    and ri: "\<forall>i < nat (bound_ad ?x) - nat (bound_ad ?x) div 2.
          rhs ! i = - sum_list (map fst (filter (\<lambda>t. snd t = int (nat (bound_ad ?x) div 2 + i))
                                           (zip (coef1 ?x ! 0) (index ?x ! 0))))"
    by blast
  have z': "zip coef (zip row col) = [(3, 0, 0)]" using z by (simp add: b)
  have lr': "length rhs = 1" using lr by (simp add: b)
  have "rhs ! 0 = 0" using ri by (simp add: b)
  then show ?thesis using w t z' lr' by auto
qed

text \<open>
  Claim C3 as stated fails. With the block v at index 0 and the block u at index 1
  (\<open>n = 1\<close>) and the form \<open>3 u v - 6 v\<close> at the origin, the v-row and u-column system
  of the claim is \<open>3 u = 6\<close>, which makes the form stationary in v. The code keeps the
  row 1 and the column 0 and the right hand side of index 1: its system is \<open>3 x = 0\<close>.
\<close>

theorem C3_counterexample:
  "wf \<lparr>shape = [], val = [0], size_ad1 = 2, coef1 = [[- 6, 0]], index = [[0, 1]],
       size_ad2 = 2, coef2 = [[3, 3]], index_row = [[0, 1]], index_col = [[1, 0]]\<rparr>
   \<and> solve_weakform_raw
        \<lparr>shape = [], val = [0], size_ad1 = 2, coef1 = [[- 6, 0]], index = [[0, 1]],
         size_ad2 = 2, coef2 = [[3, 3]], index_row = [[0, 1]], index_col = [[1, 0]]\<rparr> =
       Inr (([3], [0], [0]), [[0]])
   \<and> weakform_spec
        \<lparr>shape = [], val = [0], size_ad1 = 2, coef1 = [[- 6, 0]], index = [[0, 1]],
         size_ad2 = 2, coef2 = [[3, 3]], index_row = [[0, 1]], index_col = [[1, 0]]\<rparr> =
       Inr (([3], [0], [0]), [[6]])
   \<and> solve_weakform_raw
        \<lparr>shape = [], val = [0], size_ad1 = 2, coef1 = [[- 6, 0]], index = [[0, 1]],
         size_ad2 = 2, coef2 = [[3, 3]], index_row = [[0, 1]], index_col = [[1, 0]]\<rparr> \<noteq>
       weakform_spec
        \<lparr>shape = [], val = [0], size_ad1 = 2, coef1 = [[- 6, 0]], index = [[0, 1]],
         size_ad2 = 2, coef2 = [[3, 3]], index_row = [[0, 1]], index_col = [[1, 0]]\<rparr>"
  by code_simp

subsection \<open>The keys of the second order simplification\<close>










subsection \<open>Indexed assignment\<close>

lemma assign_length: "length (assign xs pos vs) = length xs"
proof -
  have "length (fold (\<lambda>(p, v) ys. ys[p := v]) zs xs) = length xs" for zs
    by (induction zs arbitrary: xs) (auto simp: case_prod_unfold)
  then show ?thesis by (simp add: assign_def)
qed

lemma assign_outside: "p \<notin> set pos \<Longrightarrow> assign xs pos vs ! p = xs ! p"
proof -
  have "p \<notin> fst ` set zs \<Longrightarrow> fold (\<lambda>(p, v) ys. ys[p := v]) zs xs ! p = xs ! p" for zs
    by (induction zs arbitrary: xs) (auto simp: case_prod_unfold)
  moreover have "p \<notin> set pos \<Longrightarrow> p \<notin> fst ` set (zip pos vs)"
    by (auto dest: set_zip_leftD)
  ultimately show "p \<notin> set pos \<Longrightarrow> assign xs pos vs ! p = xs ! p"
    by (simp add: assign_def)
qed

lemma assign_set: "set (assign xs pos vs) \<subseteq> set xs \<union> set vs"
proof -
  have "set (fold (\<lambda>(p, v) ys. ys[p := v]) zs xs) \<subseteq> set xs \<union> snd ` set zs" for zs
  proof (induction zs arbitrary: xs)
    case Nil
    then show ?case by simp
  next
    case (Cons z zs)
    have "set (xs[fst z := snd z]) \<subseteq> insert (snd z) (set xs)" by (rule set_update_subset_insert)
    then show ?case using Cons [of "xs[fst z := snd z]"] by (auto simp: case_prod_unfold)
  qed
  moreover have "snd ` set (zip pos vs) \<subseteq> set vs" by (auto dest: set_zip_rightD)
  ultimately show ?thesis unfolding assign_def by blast
qed

lemma bcast_set: "set (bcast s t xs) \<subseteq> set xs"
proof (induction s t xs rule: bcast.induct)
  case (1 d ds e es xs)
  show ?case
  proof (cases "d = e")
    case True
    have "set (bcast ds es (take (prod_list ds) (drop (k * prod_list ds) xs))) \<subseteq> set xs"
      if "k \<in> set [0..<d]" for k
    proof -
      have "set (bcast ds es (take (prod_list ds) (drop (k * prod_list ds) xs)))
            \<subseteq> set (take (prod_list ds) (drop (k * prod_list ds) xs))"
        using 1(1) [OF True that] .
      also have "\<dots> \<subseteq> set xs"
        by (meson set_drop_subset set_take_subset subset_trans)
      finally show ?thesis .
    qed
    note sub = this
    show ?thesis
    proof
      fix v assume "v \<in> set (bcast (d # ds) (e # es) xs)"
      then obtain k where k: "k \<in> set [0..<d]"
        and v: "v \<in> set (bcast ds es (take (prod_list ds) (drop (k * prod_list ds) xs)))"
        using True by auto
      show "v \<in> set xs" using sub [OF k] v by blast
    qed
  next
    case False
    then show ?thesis using 1(2) [OF False] by (cases e) auto
  qed
qed simp_all

lemma assign_broadcast_None:
  "assign_broadcast s t xs = None \<longleftrightarrow> \<not> can_broadcast (strip_ones s t) t"
  by (simp add: assign_broadcast_def broadcast_to_def)

lemma assign_broadcast_set: "assign_broadcast s t xs = Some vs \<Longrightarrow> set vs \<subseteq> set xs"
  by (auto simp: assign_broadcast_def broadcast_to_def split: if_splits dest: subsetD [OF bcast_set])

lemma assign_broadcast_Some:
  "can_broadcast (strip_ones s t) t \<Longrightarrow> \<exists>vs. assign_broadcast s t xs = Some vs"
  by (simp add: assign_broadcast_def broadcast_to_def)


lemma pad_last_same: "pad_last w rs w = rs"
  by (simp add: pad_last_def)

lemma pad_last_nth: "p < length rs \<Longrightarrow> pad_last w rs P ! p = rs ! p @ replicate (P - w) 0"
  by (simp add: pad_last_def)

lemma rows_ok_pad: "rows_ok n w rs \<Longrightarrow> w \<le> P \<Longrightarrow> rows_ok n P (pad_last w rs P)"
  by (auto simp: rows_ok_def pad_last_def list_all_iff)

lemma rows_ok_assign:
  assumes "rows_ok n P xs" and "\<forall>v\<in>set vs. length v = P"
  shows "rows_ok n P (assign xs pos vs)"
proof -
  have "\<forall>r\<in>set (assign xs pos vs). length r = P"
    using assign_set [of xs pos vs] assms by (auto simp: rows_ok_def list_all_iff)
  then show ?thesis using assms(1) by (simp add: rows_ok_def list_all_iff assign_length)
qed

lemma rows_ok_broadcast:
  assumes "rows_ok n w rs" and "w \<le> P" and "assign_broadcast s t (pad_last w rs P) = Some vs"
  shows "\<forall>v\<in>set vs. length v = P"
proof -
  have "rows_ok n P (pad_last w rs P)" using assms(1,2) by (rule rows_ok_pad)
  then have "\<forall>v\<in>set (pad_last w rs P). length v = P" by (simp add: rows_ok_def list_all_iff)
  then show ?thesis using assign_broadcast_set [OF assms(3)] by blast
qed

lemma setitem_ad2_eq:
  assumes cb: "can_broadcast (strip_ones (shape o2) ks) ks"
  shows "\<exists>cs rs cl.
      assign_broadcast (shape o2) ks
        (pad_last (size_ad2 o2) (coef2 o2) (max (size_ad2 self) (size_ad2 o2))) = Some cs
    \<and> assign_broadcast (shape o2) ks
        (pad_last (size_ad2 o2) (index_row o2) (max (size_ad2 self) (size_ad2 o2))) = Some rs
    \<and> assign_broadcast (shape o2) ks
        (pad_last (size_ad2 o2) (index_col o2) (max (size_ad2 self) (size_ad2 o2))) = Some cl
    \<and> setitem_ad2 self ks pos o2 =
        (None, self\<lparr>size_ad2 := max (size_ad2 self) (size_ad2 o2),
           coef2 := assign (pad_last (size_ad2 self) (coef2 self) (max (size_ad2 self) (size_ad2 o2))) pos cs,
           index_row := assign (pad_last (size_ad2 self) (index_row self) (max (size_ad2 self) (size_ad2 o2))) pos rs,
           index_col := assign (pad_last (size_ad2 self) (index_col self) (max (size_ad2 self) (size_ad2 o2))) pos cl\<rparr>)"
proof -
  let ?P = "max (size_ad2 self) (size_ad2 o2)"
  from assign_broadcast_Some [OF cb] obtain cs where
    cs: "assign_broadcast (shape o2) ks (pad_last (size_ad2 o2) (coef2 o2) ?P) = Some cs" by blast
  from assign_broadcast_Some [OF cb] obtain rs where
    rs: "assign_broadcast (shape o2) ks (pad_last (size_ad2 o2) (index_row o2) ?P) = Some rs" by blast
  from assign_broadcast_Some [OF cb] obtain cl where
    cl: "assign_broadcast (shape o2) ks (pad_last (size_ad2 o2) (index_col o2) ?P) = Some cl" by blast
  have "setitem_ad2 self ks pos o2 =
        (None, self\<lparr>size_ad2 := ?P,
           coef2 := assign (pad_last (size_ad2 self) (coef2 self) ?P) pos cs,
           index_row := assign (pad_last (size_ad2 self) (index_row self) ?P) pos rs,
           index_col := assign (pad_last (size_ad2 self) (index_col self) ?P) pos cl\<rparr>)"
  proof (cases "size_ad2 self < size_ad2 o2")
    case True
    then have P: "?P = size_ad2 o2" by simp
    show ?thesis using cs rs cl True unfolding setitem_ad2_def Let_def P by simp
  next
    case False
    then have P: "?P = size_ad2 self" by simp
    show ?thesis using cs rs cl unfolding setitem_ad2_def Let_def P
      by (simp add: pad_last_same)
  qed
  then show ?thesis using cs rs cl by blast
qed

lemma setitem_ad1_eq:
  assumes cb: "can_broadcast (strip_ones (shape o2) ks) ks"
  shows "\<exists>cs js.
      assign_broadcast (shape o2) ks
        (pad_last (size_ad1 o2) (coef1 o2) (max (size_ad1 self) (size_ad1 o2))) = Some cs
    \<and> assign_broadcast (shape o2) ks
        (pad_last (size_ad1 o2) (index o2) (max (size_ad1 self) (size_ad1 o2))) = Some js
    \<and> setitem_ad1 self ks pos o2 =
        setitem_ad2 (self\<lparr>size_ad1 := max (size_ad1 self) (size_ad1 o2),
           coef1 := assign (pad_last (size_ad1 self) (coef1 self) (max (size_ad1 self) (size_ad1 o2))) pos cs,
           index := assign (pad_last (size_ad1 self) (index self) (max (size_ad1 self) (size_ad1 o2))) pos js\<rparr>)
          ks pos o2"
proof -
  let ?P = "max (size_ad1 self) (size_ad1 o2)"
  from assign_broadcast_Some [OF cb] obtain cs where
    cs: "assign_broadcast (shape o2) ks (pad_last (size_ad1 o2) (coef1 o2) ?P) = Some cs" by blast
  from assign_broadcast_Some [OF cb] obtain js where
    js: "assign_broadcast (shape o2) ks (pad_last (size_ad1 o2) (index o2) ?P) = Some js" by blast
  have "setitem_ad1 self ks pos o2 =
        setitem_ad2 (self\<lparr>size_ad1 := ?P,
           coef1 := assign (pad_last (size_ad1 self) (coef1 self) ?P) pos cs,
           index := assign (pad_last (size_ad1 self) (index self) ?P) pos js\<rparr>) ks pos o2"
  proof (cases "size_ad1 self < size_ad1 o2")
    case True
    then have P: "?P = size_ad1 o2" by simp
    show ?thesis using cs js True unfolding setitem_ad1_def Let_def P by simp
  next
    case False
    then have P: "?P = size_ad1 self" by simp
    show ?thesis using cs js unfolding setitem_ad1_def Let_def P
      by (simp add: pad_last_same)
  qed
  then show ?thesis using cs js by blast
qed


lemma setitem_AD_eq:
  assumes ksel: "key_select (shape self) k = Inr (ks, pos)"
    and cb: "can_broadcast (strip_ones (shape o2) ks) ks"
  shows "\<exists>vs cs js c2 rs cl.
      assign_broadcast (shape o2) ks (val o2) = Some vs
    \<and> assign_broadcast (shape o2) ks
        (pad_last (size_ad1 o2) (coef1 o2) (max (size_ad1 self) (size_ad1 o2))) = Some cs
    \<and> assign_broadcast (shape o2) ks
        (pad_last (size_ad1 o2) (index o2) (max (size_ad1 self) (size_ad1 o2))) = Some js
    \<and> assign_broadcast (shape o2) ks
        (pad_last (size_ad2 o2) (coef2 o2) (max (size_ad2 self) (size_ad2 o2))) = Some c2
    \<and> assign_broadcast (shape o2) ks
        (pad_last (size_ad2 o2) (index_row o2) (max (size_ad2 self) (size_ad2 o2))) = Some rs
    \<and> assign_broadcast (shape o2) ks
        (pad_last (size_ad2 o2) (index_col o2) (max (size_ad2 self) (size_ad2 o2))) = Some cl
    \<and> setitem self k (AD o2) =
        (None, \<lparr>shape = shape self, val = assign (val self) pos vs,
           size_ad1 = max (size_ad1 self) (size_ad1 o2),
           coef1 = assign (pad_last (size_ad1 self) (coef1 self) (max (size_ad1 self) (size_ad1 o2))) pos cs,
           index = assign (pad_last (size_ad1 self) (index self) (max (size_ad1 self) (size_ad1 o2))) pos js,
           size_ad2 = max (size_ad2 self) (size_ad2 o2),
           coef2 = assign (pad_last (size_ad2 self) (coef2 self) (max (size_ad2 self) (size_ad2 o2))) pos c2,
           index_row = assign (pad_last (size_ad2 self) (index_row self) (max (size_ad2 self) (size_ad2 o2))) pos rs,
           index_col = assign (pad_last (size_ad2 self) (index_col self) (max (size_ad2 self) (size_ad2 o2))) pos cl\<rparr>)"
proof -
  from assign_broadcast_Some [OF cb] obtain vs where
    vs: "assign_broadcast (shape o2) ks (val o2) = Some vs" by blast
  let ?s1 = "self\<lparr>val := assign (val self) pos vs\<rparr>"
  have s0: "setitem self k (AD o2) = setitem_ad1 ?s1 ks pos o2"
    using ksel vs by (simp add: setitem_def)
  from setitem_ad1_eq [OF cb, of ?s1 pos] obtain cs js where
    cs: "assign_broadcast (shape o2) ks
        (pad_last (size_ad1 o2) (coef1 o2) (max (size_ad1 self) (size_ad1 o2))) = Some cs"
    and js: "assign_broadcast (shape o2) ks
        (pad_last (size_ad1 o2) (index o2) (max (size_ad1 self) (size_ad1 o2))) = Some js"
    and s1: "setitem_ad1 ?s1 ks pos o2 =
        setitem_ad2 (?s1\<lparr>size_ad1 := max (size_ad1 self) (size_ad1 o2),
           coef1 := assign (pad_last (size_ad1 self) (coef1 self) (max (size_ad1 self) (size_ad1 o2))) pos cs,
           index := assign (pad_last (size_ad1 self) (index self) (max (size_ad1 self) (size_ad1 o2))) pos js\<rparr>)
          ks pos o2"
    by auto
  let ?s2 = "?s1\<lparr>size_ad1 := max (size_ad1 self) (size_ad1 o2),
           coef1 := assign (pad_last (size_ad1 self) (coef1 self) (max (size_ad1 self) (size_ad1 o2))) pos cs,
           index := assign (pad_last (size_ad1 self) (index self) (max (size_ad1 self) (size_ad1 o2))) pos js\<rparr>"
  from setitem_ad2_eq [OF cb, of ?s2 pos] obtain c2 rs cl where
    c2: "assign_broadcast (shape o2) ks
        (pad_last (size_ad2 o2) (coef2 o2) (max (size_ad2 self) (size_ad2 o2))) = Some c2"
    and rs: "assign_broadcast (shape o2) ks
        (pad_last (size_ad2 o2) (index_row o2) (max (size_ad2 self) (size_ad2 o2))) = Some rs"
    and cl: "assign_broadcast (shape o2) ks
        (pad_last (size_ad2 o2) (index_col o2) (max (size_ad2 self) (size_ad2 o2))) = Some cl"
    and s2: "setitem_ad2 ?s2 ks pos o2 =
        (None, ?s2\<lparr>size_ad2 := max (size_ad2 self) (size_ad2 o2),
           coef2 := assign (pad_last (size_ad2 self) (coef2 self) (max (size_ad2 self) (size_ad2 o2))) pos c2,
           index_row := assign (pad_last (size_ad2 self) (index_row self) (max (size_ad2 self) (size_ad2 o2))) pos rs,
           index_col := assign (pad_last (size_ad2 self) (index_col self) (max (size_ad2 self) (size_ad2 o2))) pos cl\<rparr>)"
    by auto
  have "setitem self k (AD o2) =
        (None, \<lparr>shape = shape self, val = assign (val self) pos vs,
           size_ad1 = max (size_ad1 self) (size_ad1 o2),
           coef1 = assign (pad_last (size_ad1 self) (coef1 self) (max (size_ad1 self) (size_ad1 o2))) pos cs,
           index = assign (pad_last (size_ad1 self) (index self) (max (size_ad1 self) (size_ad1 o2))) pos js,
           size_ad2 = max (size_ad2 self) (size_ad2 o2),
           coef2 = assign (pad_last (size_ad2 self) (coef2 self) (max (size_ad2 self) (size_ad2 o2))) pos c2,
           index_row = assign (pad_last (size_ad2 self) (index_row self) (max (size_ad2 self) (size_ad2 o2))) pos rs,
           index_col = assign (pad_last (size_ad2 self) (index_col self) (max (size_ad2 self) (size_ad2 o2))) pos cl\<rparr>)"
    unfolding s0 s1 s2 by simp
  then show ?thesis using vs cs js c2 rs cl by blast
qed




text \<open>
  Claim C9. After a successful assignment \<open>target[key] = rhs\<close> of an \<open>spAD2\<close>, the first
  order width of the target is the larger of the two first order widths and the second
  order width the larger of the two second order widths, each on its own; all rows of
  the target have the new widths; and an element that the key does not select keeps
  its value, and its coefficient and index rows followed by zeros up to the new width.
\<close>

theorem C9_setitem_widens_target:
  assumes "wf self" and "wf other" and "setitem self k (AD other) = (None, r)"
  shows "wf r \<and> shape r = shape self
    \<and> size_ad1 r = max (size_ad1 self) (size_ad1 other)
    \<and> size_ad2 r = max (size_ad2 self) (size_ad2 other)
    \<and> (\<forall>ks pos p. key_select (shape self) k = Inr (ks, pos) \<and> p < length (val self) \<and> p \<notin> set pos \<longrightarrow>
          val r ! p = val self ! p
        \<and> coef1 r ! p = coef1 self ! p @ replicate (size_ad1 r - size_ad1 self) 0
        \<and> index r ! p = index self ! p @ replicate (size_ad1 r - size_ad1 self) 0
        \<and> coef2 r ! p = coef2 self ! p @ replicate (size_ad2 r - size_ad2 self) 0
        \<and> index_row r ! p = index_row self ! p @ replicate (size_ad2 r - size_ad2 self) 0
        \<and> index_col r ! p = index_col self ! p @ replicate (size_ad2 r - size_ad2 self) 0)"
proof -
  let ?n = "length (val self)"
  let ?P1 = "max (size_ad1 self) (size_ad1 other)"
  let ?P2 = "max (size_ad2 self) (size_ad2 other)"
  obtain ks pos where ksel: "key_select (shape self) k = Inr (ks, pos)"
    using assms(3) by (cases "key_select (shape self) k") (auto simp: setitem_def)
  have cb: "can_broadcast (strip_ones (shape other) ks) ks"
  proof (rule ccontr)
    assume "\<not> can_broadcast (strip_ones (shape other) ks) ks"
    then have "assign_broadcast (shape other) ks (val other) = None"
      by (simp add: assign_broadcast_None)
    then show False using ksel assms(3) by (simp add: setitem_def)
  qed
  from setitem_AD_eq [OF ksel cb] assms(3) obtain vs cs js c2 rs cl where
    cs: "assign_broadcast (shape other) ks (pad_last (size_ad1 other) (coef1 other) ?P1) = Some cs"
    and js: "assign_broadcast (shape other) ks (pad_last (size_ad1 other) (index other) ?P1) = Some js"
    and c2: "assign_broadcast (shape other) ks (pad_last (size_ad2 other) (coef2 other) ?P2) = Some c2"
    and rs: "assign_broadcast (shape other) ks (pad_last (size_ad2 other) (index_row other) ?P2) = Some rs"
    and cl: "assign_broadcast (shape other) ks (pad_last (size_ad2 other) (index_col other) ?P2) = Some cl"
    and r: "r = \<lparr>shape = shape self, val = assign (val self) pos vs,
           size_ad1 = ?P1,
           coef1 = assign (pad_last (size_ad1 self) (coef1 self) ?P1) pos cs,
           index = assign (pad_last (size_ad1 self) (index self) ?P1) pos js,
           size_ad2 = ?P2,
           coef2 = assign (pad_last (size_ad2 self) (coef2 self) ?P2) pos c2,
           index_row = assign (pad_last (size_ad2 self) (index_row self) ?P2) pos rs,
           index_col = assign (pad_last (size_ad2 self) (index_col self) ?P2) pos cl\<rparr>"
    by auto
  have ws: "length (val self) = prod_list (shape self)"
    "rows_ok ?n (size_ad1 self) (coef1 self)" "rows_ok ?n (size_ad1 self) (index self)"
    "rows_ok ?n (size_ad2 self) (coef2 self)" "rows_ok ?n (size_ad2 self) (index_row self)"
    "rows_ok ?n (size_ad2 self) (index_col self)"
    using assms(1) unfolding wf_def by blast+
  have wo: "rows_ok (length (val other)) (size_ad1 other) (coef1 other)"
    "rows_ok (length (val other)) (size_ad1 other) (index other)"
    "rows_ok (length (val other)) (size_ad2 other) (coef2 other)"
    "rows_ok (length (val other)) (size_ad2 other) (index_row other)"
    "rows_ok (length (val other)) (size_ad2 other) (index_col other)"
    using assms(2) unfolding wf_def by blast+
  have le: "size_ad1 self \<le> ?P1" "size_ad1 other \<le> ?P1" "size_ad2 self \<le> ?P2" "size_ad2 other \<le> ?P2"
    by simp_all
  have k1: "rows_ok ?n ?P1 (assign (pad_last (size_ad1 self) (coef1 self) ?P1) pos cs)"
    by (rule rows_ok_assign [OF rows_ok_pad [OF ws(2) le(1)] rows_ok_broadcast [OF wo(1) le(2) cs]])
  have k2: "rows_ok ?n ?P1 (assign (pad_last (size_ad1 self) (index self) ?P1) pos js)"
    by (rule rows_ok_assign [OF rows_ok_pad [OF ws(3) le(1)] rows_ok_broadcast [OF wo(2) le(2) js]])
  have k3: "rows_ok ?n ?P2 (assign (pad_last (size_ad2 self) (coef2 self) ?P2) pos c2)"
    by (rule rows_ok_assign [OF rows_ok_pad [OF ws(4) le(3)] rows_ok_broadcast [OF wo(3) le(4) c2]])
  have k4: "rows_ok ?n ?P2 (assign (pad_last (size_ad2 self) (index_row self) ?P2) pos rs)"
    by (rule rows_ok_assign [OF rows_ok_pad [OF ws(5) le(3)] rows_ok_broadcast [OF wo(4) le(4) rs]])
  have k5: "rows_ok ?n ?P2 (assign (pad_last (size_ad2 self) (index_col self) ?P2) pos cl)"
    by (rule rows_ok_assign [OF rows_ok_pad [OF ws(6) le(3)] rows_ok_broadcast [OF wo(5) le(4) cl]])
  have wr: "wf r"
    using ws(1) k1 k2 k3 k4 k5 by (simp add: wf_def r assign_length)
  have outside: "val r ! p = val self ! p
        \<and> coef1 r ! p = coef1 self ! p @ replicate (size_ad1 r - size_ad1 self) 0
        \<and> index r ! p = index self ! p @ replicate (size_ad1 r - size_ad1 self) 0
        \<and> coef2 r ! p = coef2 self ! p @ replicate (size_ad2 r - size_ad2 self) 0
        \<and> index_row r ! p = index_row self ! p @ replicate (size_ad2 r - size_ad2 self) 0
        \<and> index_col r ! p = index_col self ! p @ replicate (size_ad2 r - size_ad2 self) 0"
    if "key_select (shape self) k = Inr (ks', pos')" "p < ?n" "p \<notin> set pos'" for ks' pos' p
  proof -
    have pp: "pos' = pos" using that(1) ksel by simp
    have np: "p \<notin> set pos" using that(3) pp by simp
    have l: "p < length (coef1 self)" "p < length (index self)" "p < length (coef2 self)"
      "p < length (index_row self)" "p < length (index_col self)"
      using ws that(2) by (simp_all add: rows_ok_def)
    show ?thesis
      using l by (simp add: r assign_outside [OF np] pad_last_nth)
  qed
  show ?thesis using wr outside by (simp add: r)
qed


text \<open>
  An instance of C9: a scalar with two first order and two second order terms is
  assigned to the element 1 of an identity array of three elements.
\<close>

theorem C9_setitem_widens_target_witness:
  "wf (identity [3] [1, 2, 3] [0, 1, 2])
   \<and> wf \<lparr>shape = [], val = [0], size_ad1 = 2, coef1 = [[- 6, 0]], index = [[0, 1]],
          size_ad2 = 2, coef2 = [[3, 3]], index_row = [[0, 1]], index_col = [[1, 0]]\<rparr>
   \<and> setitem (identity [3] [1, 2, 3] [0, 1, 2]) (KInt 1)
        (AD \<lparr>shape = [], val = [0], size_ad1 = 2, coef1 = [[- 6, 0]], index = [[0, 1]],
          size_ad2 = 2, coef2 = [[3, 3]], index_row = [[0, 1]], index_col = [[1, 0]]\<rparr>) =
       (None, \<lparr>shape = [3], val = [1, 0, 3], size_ad1 = 2,
          coef1 = [[1, 0], [- 6, 0], [1, 0]], index = [[0, 0], [0, 1], [2, 0]],
          size_ad2 = 2, coef2 = [[0, 0], [3, 3], [0, 0]],
          index_row = [[0, 0], [0, 1], [0, 0]], index_col = [[0, 0], [1, 0], [0, 0]]\<rparr>)
   \<and> key_select (shape (identity [3] [1, 2, 3] [0, 1, 2])) (KInt 1) = Inr ([], [1])
   \<and> (2::nat) < length (val (identity [3] [1, 2, 3] [0, 1, 2])) \<and> (2::nat) \<notin> set [1]
   \<and> wf \<lparr>shape = [3], val = [1, 0, 3], size_ad1 = 2,
          coef1 = [[1, 0], [- 6, 0], [1, 0]], index = [[0, 0], [0, 1], [2, 0]],
          size_ad2 = 2, coef2 = [[0, 0], [3, 3], [0, 0]],
          index_row = [[0, 0], [0, 1], [0, 0]], index_col = [[0, 0], [1, 0], [0, 0]]\<rparr>
   \<and> index \<lparr>shape = [3], val = [1, 0, 3], size_ad1 = 2,
          coef1 = [[1, 0], [- 6, 0], [1, 0]], index = [[0, 0], [0, 1], [2, 0]],
          size_ad2 = 2, coef2 = [[0, 0], [3, 3], [0, 0]],
          index_row = [[0, 0], [0, 1], [0, 0]], index_col = [[0, 0], [1, 0], [0, 0]]\<rparr> ! 2 =
       index (identity [3] [1, 2, 3] [0, 1, 2]) ! 2 @ replicate (2 - 1) 0"
proof -
  let ?s = "identity [3] [1, 2, 3] [0, 1, 2]"
  let ?o = "\<lparr>shape = [], val = [0::real], size_ad1 = 2, coef1 = [[- 6, 0]], index = [[0, 1]],
          size_ad2 = 2, coef2 = [[3, 3]], index_row = [[0, 1]], index_col = [[1, 0]]\<rparr>"
  let ?r = "\<lparr>shape = [3], val = [1::real, 0, 3], size_ad1 = 2,
          coef1 = [[1, 0], [- 6, 0], [1, 0]], index = [[0, 0], [0, 1], [2, 0]],
          size_ad2 = 2, coef2 = [[0, 0], [3, 3], [0, 0]],
          index_row = [[0, 0], [0, 1], [0, 0]], index_col = [[0, 0], [1, 0], [0, 0]]\<rparr>"
  have w: "wf ?s" by (simp add: wf_def identity_def rows_ok_def)
  have w': "wf ?o" by (simp add: wf_def rows_ok_def)
  have e: "setitem ?s (KInt 1) (AD ?o) = (None, ?r)" by code_simp
  have k1: "key_select (shape ?s) (KInt 1) = Inr ([], [1])"
    by (simp add: identity_def norm_index_def block_def)
  have p: "(2::nat) < length (val ?s)" "(2::nat) \<notin> set [1]" by (simp_all add: identity_def)
  note t = C9_setitem_widens_target [OF w w' e]
  have wr: "wf ?r" using t by blast
  have "index ?r ! 2 = index ?s ! 2 @ replicate (size_ad1 ?r - size_ad1 ?s) 0"
    using t k1 p by blast
  then have "index ?r ! 2 = index ?s ! 2 @ replicate (2 - 1) 0" by (simp add: identity_def)
  then show ?thesis using w w' e k1 p wr by blast
qed

subsection \<open>Simplification\<close>

lemma term_sum_Nil [simp]: "term_sum [] k = 0"
  by (simp add: term_sum_def)

lemma term_sum_Cons: "term_sum (t # ts) k = (if snd t = k then fst t else 0) + term_sum ts k"
  by (simp add: term_sum_def)

lemma term_sum_append: "term_sum (as @ bs) k = term_sum as k + term_sum bs k"
  by (simp add: term_sum_def)

lemma term_sum_absent: "k \<notin> snd ` set ts \<Longrightarrow> term_sum ts k = 0"
  by (induction ts) (auto simp: term_sum_Cons)

lemma term_sum_zero_coefs: "\<forall>t\<in>set ts. fst t = 0 \<Longrightarrow> term_sum ts k = 0"
  by (induction ts) (auto simp: term_sum_Cons)

lemma term_sum_present:
  "distinct (map snd ts) \<Longrightarrow> (c, k) \<in> set ts \<Longrightarrow> term_sum ts k = c"
proof (induction ts)
  case Nil
  then show ?case by simp
next
  case (Cons t ts)
  show ?case
  proof (cases "t = (c, k)")
    case True
    then have "k \<notin> snd ` set ts" using Cons.prems(1) by auto
    then show ?thesis using True by (simp add: term_sum_Cons term_sum_absent)
  next
    case False
    then have in_ts: "(c, k) \<in> set ts" using Cons.prems(2) by simp
    then have "k \<in> snd ` set ts" by force
    then have "snd t \<noteq> k" using Cons.prems(1) by auto
    then show ?thesis using Cons.IH in_ts Cons.prems(1) by (simp add: term_sum_Cons)
  qed
qed

lemma term_sum_filter_nonzero: "term_sum (filter (\<lambda>t. fst t \<noteq> 0) ts) k = term_sum ts k"
  by (induction ts) (auto simp: term_sum_Cons)

lemma term_sum_tabulate:
  "distinct ks \<Longrightarrow> term_sum (map (\<lambda>k. (g k, k)) ks) k = (if k \<in> set ks then g k else 0)"
proof (induction ks)
  case Nil
  then show ?case by simp
next
  case (Cons a ks)
  then show ?case by (auto simp: term_sum_Cons)
qed

lemma term_sum_merge: "term_sum (merge_terms ts) k = term_sum ts k"
proof -
  have d: "distinct (sort (remdups (map snd ts)))" by simp
  have "term_sum (merge_terms ts) k =
        term_sum (map (\<lambda>k. (term_sum ts k, k)) (sort (remdups (map snd ts)))) k"
    unfolding merge_terms_def term_sum_filter_nonzero
    by (simp add: term_sum_def [symmetric, abs_def])
  also have "\<dots> = (if k \<in> set (sort (remdups (map snd ts))) then term_sum ts k else 0)"
    using d by (rule term_sum_tabulate)
  also have "\<dots> = term_sum ts k" by (auto simp: term_sum_absent)
  finally show ?thesis .
qed

lemma map_snd_filter_tabulate:
  "map snd (filter (\<lambda>t. fst t \<noteq> 0) (map (\<lambda>k. (g k, k)) ks)) = filter (\<lambda>k. g k \<noteq> 0) ks"
  by (induction ks) auto

lemma canonical_merge: "canonical (merge_terms ts)"
proof -
  have m: "map snd (merge_terms ts) =
           filter (\<lambda>k. term_sum ts k \<noteq> 0) (sort (remdups (map snd ts)))"
    unfolding merge_terms_def
    by (simp add: term_sum_def [symmetric, abs_def] map_snd_filter_tabulate)
  have "sorted (map snd (merge_terms ts))" unfolding m by (rule sorted_wrt_filter) simp
  moreover have "distinct (map snd (merge_terms ts))" unfolding m by simp
  moreover have "\<forall>t\<in>set (merge_terms ts). fst t \<noteq> 0" by (simp add: merge_terms_def)
  ultimately show ?thesis by (simp add: canonical_def)
qed

lemma canonical_keys: "canonical a \<Longrightarrow> set (map snd a) = {k. term_sum a k \<noteq> 0}"
proof -
  assume c: "canonical a"
  show ?thesis
  proof (intro set_eqI iffI)
    fix k assume "k \<in> set (map snd a)"
    then obtain v where v: "(v, k) \<in> set a" by auto
    then have "term_sum a k = v" using c by (simp add: canonical_def term_sum_present)
    moreover have "v \<noteq> 0" using c v by (auto simp: canonical_def)
    ultimately show "k \<in> {k. term_sum a k \<noteq> 0}" by simp
  next
    fix k assume "k \<in> {k. term_sum a k \<noteq> 0}"
    then show "k \<in> set (map snd a)" using term_sum_absent [of k a] by auto
  qed
qed

lemma canonical_tabulate: "canonical a \<Longrightarrow> a = map (\<lambda>k. (term_sum a k, k)) (map snd a)"
proof -
  assume c: "canonical a"
  have "map (\<lambda>k. (term_sum a k, k)) (map snd a) = map (\<lambda>t. t) a"
    unfolding map_map
  proof (rule map_cong [OF refl])
    fix t assume t: "t \<in> set a"
    then have "(fst t, snd t) \<in> set a" by simp
    then have "term_sum a (snd t) = fst t" using c by (simp add: canonical_def term_sum_present)
    then show "((\<lambda>k. (term_sum a k, k)) \<circ> snd) t = t" by simp
  qed
  then show ?thesis by simp
qed

lemma canonical_unique:
  assumes "canonical a" and "canonical b" and "\<forall>k. term_sum a k = term_sum b k"
  shows "a = b"
proof -
  have "set (map snd a) = set (map snd b)"
    using canonical_keys [OF assms(1)] canonical_keys [OF assms(2)] assms(3) by simp
  then have k: "map snd a = map snd b"
    using assms(1,2) by (intro sorted_distinct_set_unique) (simp_all add: canonical_def)
  have "a = map (\<lambda>k. (term_sum a k, k)) (map snd a)" using assms(1) by (rule canonical_tabulate)
  also have "\<dots> = map (\<lambda>k. (term_sum b k, k)) (map snd b)" using k assms(3) by simp
  also have "\<dots> = b" using canonical_tabulate [OF assms(2)] by simp
  finally show ?thesis .
qed

lemma term_sum_pad: "term_sum (pad_terms w ts) k = term_sum ts k"
  by (simp add: pad_terms_def term_sum_append term_sum_zero_coefs)

lemma merge_pad_merge: "merge_terms (pad_terms w (merge_terms ts)) = merge_terms ts"
  by (rule canonical_unique) (simp_all add: canonical_merge term_sum_merge term_sum_pad)


lemma fold_max_nat: "fold max xs (m::nat) = Max (insert m (set xs))"
proof -
  have "Max (set (m # xs)) = fold max xs m" by (rule Max.set_eq_fold)
  then show ?thesis by simp
qed

lemma fold_max_ge: "x \<in> set xs \<Longrightarrow> x \<le> fold max xs (0::nat)"
  unfolding fold_max_nat by (rule Max_ge) simp_all

lemma length_pad_terms: "length ts \<le> w \<Longrightarrow> length (pad_terms w ts) = w"
  by (simp add: pad_terms_def)

lemma spAD_simplify_fields:
  "sp_shape (spAD_simplify h) = sp_shape h"
  "sp_val (spAD_simplify h) = sp_val h"
  "sp_size_ad (spAD_simplify h) =
     fold max (map length (map2 (\<lambda>cs ks. merge_terms (zip cs ks)) (sp_coef h) (sp_index h))) 0"
  "sp_coef (spAD_simplify h) =
     map (\<lambda>m. map fst (pad_terms (sp_size_ad (spAD_simplify h)) m))
       (map2 (\<lambda>cs ks. merge_terms (zip cs ks)) (sp_coef h) (sp_index h))"
  "sp_index (spAD_simplify h) =
     map (\<lambda>m. map snd (pad_terms (sp_size_ad (spAD_simplify h)) m))
       (map2 (\<lambda>cs ks. merge_terms (zip cs ks)) (sp_coef h) (sp_index h))"
  by (simp_all add: spAD_simplify_def Let_def)


lemma spAD_simplify_row:
  assumes l: "length (sp_index h) = length (sp_coef h)" and e: "e < length (sp_coef h)"
  shows "sp_coef (spAD_simplify h) ! e =
           map fst (pad_terms (sp_size_ad (spAD_simplify h))
                      (merge_terms (zip (sp_coef h ! e) (sp_index h ! e))))"
    and "sp_index (spAD_simplify h) ! e =
           map snd (pad_terms (sp_size_ad (spAD_simplify h))
                      (merge_terms (zip (sp_coef h ! e) (sp_index h ! e))))"
    and "length (merge_terms (zip (sp_coef h ! e) (sp_index h ! e))) \<le> sp_size_ad (spAD_simplify h)"
proof -
  let ?ms = "map2 (\<lambda>cs ks. merge_terms (zip cs ks)) (sp_coef h) (sp_index h)"
  have le: "length ?ms = length (sp_coef h)" using l by simp
  have me: "?ms ! e = merge_terms (zip (sp_coef h ! e) (sp_index h ! e))"
    using l e by simp
  show "sp_coef (spAD_simplify h) ! e =
           map fst (pad_terms (sp_size_ad (spAD_simplify h))
                      (merge_terms (zip (sp_coef h ! e) (sp_index h ! e))))"
    unfolding spAD_simplify_fields(4) using le e me by simp
  show "sp_index (spAD_simplify h) ! e =
           map snd (pad_terms (sp_size_ad (spAD_simplify h))
                      (merge_terms (zip (sp_coef h ! e) (sp_index h ! e))))"
    unfolding spAD_simplify_fields(5) using le e me by simp
  have "e < length (map length ?ms)" using le e by simp
  then have "map length ?ms ! e \<in> set (map length ?ms)" by (rule nth_mem)
  moreover have "map length ?ms ! e = length (?ms ! e)" using le e by (intro nth_map) simp
  ultimately have "length (?ms ! e) \<in> set (map length ?ms)" by simp
  then have "length (?ms ! e) \<le> fold max (map length ?ms) 0" by (rule fold_max_ge)
  then show "length (merge_terms (zip (sp_coef h ! e) (sp_index h ! e))) \<le> sp_size_ad (spAD_simplify h)"
    unfolding spAD_simplify_fields(3) me .
qed


lemma spAD_simplify_width:
  assumes l: "length (sp_index h) = length (sp_coef h)" and e: "e < length (sp_coef h)"
  shows "length (sp_coef (spAD_simplify h) ! e) = sp_size_ad (spAD_simplify h)"
    and "length (sp_index (spAD_simplify h) ! e) = sp_size_ad (spAD_simplify h)"
  unfolding spAD_simplify_row(1,2) [OF l e]
  using spAD_simplify_row(3) [OF l e] by (simp_all add: length_pad_terms)














subsection \<open>Simplification of the whole array\<close>
















end
